theory Spec2Isabelle
  imports Complex_Main
begin

section \<open>Python values used by the program\<close>

subsection \<open>Exceptions\<close>

text \<open>
  The exceptions that the modelled statements of \<^verbatim>\<open>main.py\<close> can raise. A computation
  that may raise has the type \<open>exn + 'a\<close>, with \<open>Inl\<close> for the raised exception.
\<close>

datatype exn =
    ValueError
  | IndexError
  | TypeError
  | OverflowError
  | ZeroDivisionError
  | FileNotFoundError
  | UnicodeDecodeError
  | OSError

definition then_do :: "exn + 'a \<Rightarrow> ('a \<Rightarrow> exn + 'b) \<Rightarrow> exn + 'b" where
  "then_do m f = (case m of Inl e \<Rightarrow> Inl e | Inr v \<Rightarrow> f v)"

subsection \<open>Floating-point numbers\<close>

text \<open>
  A Python \<^verbatim>\<open>float\<close> is an IEEE 754 binary64 number. A finite one is represented by its
  exact rational value; every arithmetic operation computes the exact result and rounds
  it to the nearest binary64 number, ties to even (\<open>rnd\<close>). The two zeros are not
  told apart: Python's \<^verbatim>\<open>==\<close>, \<^verbatim>\<open><=\<close> and \<^verbatim>\<open>int()\<close> do not tell them apart either.
\<close>

datatype pyfloat = Fin rat | PInf | NInf | NaN

function pow_int :: "rat \<Rightarrow> int \<Rightarrow> rat" where
  \<comment> \<open>\<open>b\<close> to the power \<open>n\<close> by repeated squaring, 1 for \<open>n \<le> 0\<close>\<close>
  "pow_int b n =
     (if n \<le> 0 then 1
      else if even n then pow_int (b * b) (n div 2)
      else b * pow_int (b * b) (n div 2))"
  by pat_completeness auto
termination
  by (relation "measure (\<lambda>(b, n). nat n)") auto

declare pow_int.simps [simp del]

definition pow2 :: "int \<Rightarrow> rat" where
  "pow2 e = (if 0 \<le> e then pow_int 2 e else 1 / pow_int 2 (- e))"

function ilog2 :: "int \<Rightarrow> int" where
  \<comment> \<open>for \<open>1 \<le> n\<close>: the \<open>k\<close> with \<open>2 ^ k \<le> n < 2 ^ (k + 1)\<close>\<close>
  "ilog2 n = (if n < 2 then 0 else 1 + ilog2 (n div 2))"
  by pat_completeness auto
termination
  by (relation "measure nat") auto

declare ilog2.simps [simp del]

definition binade :: "rat \<Rightarrow> int" where
  \<comment> \<open>for \<open>0 < x\<close>: the exponent \<open>e\<close> with \<open>2 ^ e \<le> x < 2 ^ (e + 1)\<close>\<close>
  "binade x =
     (if 1 \<le> x then ilog2 \<lfloor>x\<rfloor>
      else - (1 + ilog2 (\<lceil>1 / x\<rceil> - 1)))"

definition round_half_even :: "rat \<Rightarrow> int" where
  "round_half_even x =
     (let f = \<lfloor>x\<rfloor>; d = x - of_int f
      in if d < 1 / 2 then f
         else if 1 / 2 < d then f + 1
         else if even f then f else f + 1)"

definition rnd :: "rat \<Rightarrow> pyfloat" where
  \<comment> \<open>round to nearest binary64, ties to even; 53 significant bits, least exponent -1022,
      overflow to infinity from \<open>2 ^ 1024\<close>\<close>
  "rnd x =
     (if x = 0 then Fin 0
      else
        let a = \<bar>x\<bar>;
            e = max (binade a) (- 1022);
            q = pow2 (e - 52);
            r = of_int (round_half_even (a / q)) * q
        in if pow2 1024 \<le> r then (if 0 < x then PInf else NInf)
           else Fin (if 0 < x then r else - r))"

fun fneg :: "pyfloat \<Rightarrow> pyfloat" where
  "fneg (Fin x) = Fin (- x)"
| "fneg PInf = NInf"
| "fneg NInf = PInf"
| "fneg NaN = NaN"

fun fabs :: "pyfloat \<Rightarrow> pyfloat" where
  "fabs (Fin x) = Fin \<bar>x\<bar>"
| "fabs PInf = PInf"
| "fabs NInf = PInf"
| "fabs NaN = NaN"

fun fadd :: "pyfloat \<Rightarrow> pyfloat \<Rightarrow> pyfloat" where
  "fadd NaN b = NaN"
| "fadd (Fin x) (Fin y) = rnd (x + y)"
| "fadd (Fin x) b = b"
| "fadd PInf (Fin y) = PInf"
| "fadd PInf PInf = PInf"
| "fadd PInf b = NaN"
| "fadd NInf (Fin y) = NInf"
| "fadd NInf NInf = NInf"
| "fadd NInf b = NaN"

definition fsub :: "pyfloat \<Rightarrow> pyfloat \<Rightarrow> pyfloat" where
  "fsub a b = fadd a (fneg b)"

fun fsign :: "pyfloat \<Rightarrow> int" where
  "fsign (Fin x) = (if 0 < x then 1 else if x < 0 then - 1 else 0)"
| "fsign PInf = 1"
| "fsign NInf = - 1"
| "fsign NaN = 0"

definition signed_inf :: "int \<Rightarrow> pyfloat" where
  "signed_inf s = (if s = 0 then NaN else if 0 < s then PInf else NInf)"

fun fmul :: "pyfloat \<Rightarrow> pyfloat \<Rightarrow> pyfloat" where
  "fmul NaN b = NaN"
| "fmul a NaN = NaN"
| "fmul (Fin x) (Fin y) = rnd (x * y)"
| "fmul a b = signed_inf (fsign a * fsign b)"

fun fdiv :: "pyfloat \<Rightarrow> pyfloat \<Rightarrow> exn + pyfloat" where
  \<comment> \<open>Python's \<^verbatim>\<open>/\<close> on floats raises on a zero divisor\<close>
  "fdiv a (Fin y) =
     (if y = 0 then Inl ZeroDivisionError
      else case a of
          Fin x \<Rightarrow> Inr (rnd (x / y))
        | NaN \<Rightarrow> Inr NaN
        | _ \<Rightarrow> Inr (signed_inf (fsign a * fsign (Fin y))))"
| "fdiv a NaN = Inr NaN"
| "fdiv (Fin x) b = Inr (Fin 0)"
| "fdiv a b = Inr NaN"

fun fle :: "pyfloat \<Rightarrow> pyfloat \<Rightarrow> bool" where
  "fle NaN b = False"
| "fle a NaN = False"
| "fle (Fin x) (Fin y) = (x \<le> y)"
| "fle NInf b = True"
| "fle a PInf = True"
| "fle a b = False"

fun feq :: "pyfloat \<Rightarrow> pyfloat \<Rightarrow> bool" where
  "feq (Fin x) (Fin y) = (x = y)"
| "feq PInf PInf = True"
| "feq NInf NInf = True"
| "feq a b = False"

definition fgt :: "pyfloat \<Rightarrow> pyfloat \<Rightarrow> bool" where
  \<comment> \<open>\<^verbatim>\<open>a > b\<close>: false as soon as one side is NaN\<close>
  "fgt a b = (fle b a \<and> \<not> feq a b)"

definition int_to_float :: "int \<Rightarrow> exn + pyfloat" where
  \<comment> \<open>the conversion of an \<^verbatim>\<open>int\<close> operand of a mixed \<^verbatim>\<open>int\<close>/\<^verbatim>\<open>float\<close> operation\<close>
  "int_to_float i =
     (case rnd (of_int i) of Fin r \<Rightarrow> Inr (Fin r) | _ \<Rightarrow> Inl OverflowError)"

fun py_int :: "pyfloat \<Rightarrow> exn + int" where
  \<comment> \<open>\<^verbatim>\<open>int(x)\<close> of a float: truncation towards zero\<close>
  "py_int (Fin x) = Inr (if 0 \<le> x then \<lfloor>x\<rfloor> else \<lceil>x\<rceil>)"
| "py_int NaN = Inl ValueError"
| "py_int PInf = Inl OverflowError"
| "py_int NInf = Inl OverflowError"

subsection \<open>Strings\<close>

text \<open>
  A Python \<^verbatim>\<open>str\<close> is modelled as a HOL string, a list of code points below 256. On this
  range the tables of \<^verbatim>\<open>str.isspace\<close>, \<^verbatim>\<open>str.isprintable\<close> and of the decimal digits
  are the ones of CPython.
\<close>

definition ord :: "char \<Rightarrow> int" where
  "ord c = of_char c"

definition isspace :: "char \<Rightarrow> bool" where
  "isspace c = (let n = ord c in (9 \<le> n \<and> n \<le> 13) \<or> (28 \<le> n \<and> n \<le> 32) \<or> n = 133 \<or> n = 160)"

definition isprintable :: "char \<Rightarrow> bool" where
  "isprintable c = (let n = ord c in (32 \<le> n \<and> n \<le> 126) \<or> (161 \<le> n \<and> n \<noteq> 173))"

definition strip :: "string \<Rightarrow> string" where
  "strip s = rev (dropWhile isspace (rev (dropWhile isspace s)))"

fun startswith :: "string \<Rightarrow> string \<Rightarrow> bool" where
  "startswith s [] = True"
| "startswith [] (p # ps) = False"
| "startswith (c # cs) (p # ps) = (c = p \<and> startswith cs ps)"

definition endswith :: "string \<Rightarrow> string \<Rightarrow> bool" where
  "endswith s p = startswith (rev s) (rev p)"

fun split :: "char \<Rightarrow> string \<Rightarrow> string list" where
  \<comment> \<open>\<^verbatim>\<open>s.split(sep)\<close> for a one-character separator: never the empty list\<close>
  "split sep [] = [[]]"
| "split sep (c # cs) =
     (if c = sep then [] # split sep cs
      else case split sep cs of
          [] \<Rightarrow> [[c]]
        | p # ps \<Rightarrow> (c # p) # ps)"

definition index :: "'a list \<Rightarrow> nat \<Rightarrow> exn + 'a" where
  \<comment> \<open>\<^verbatim>\<open>xs[i]\<close> for a literal index \<open>i \<ge> 0\<close>\<close>
  "index xs i = (if i < length xs then Inr (xs ! i) else Inl IndexError)"

subsection \<open>The conversion \<^verbatim>\<open>float(s)\<close> of a string\<close>

definition isdigit :: "char \<Rightarrow> bool" where
  "isdigit c = (48 \<le> ord c \<and> ord c \<le> 57)"

definition digits_val :: "string \<Rightarrow> int" where
  "digits_val ds = foldl (\<lambda>acc c. 10 * acc + (ord c - 48)) 0 ds"

definition pow10 :: "int \<Rightarrow> rat" where
  "pow10 e = (if 0 \<le> e then pow_int 10 e else 1 / pow_int 10 (- e))"

definition c_isspace :: "char \<Rightarrow> bool" where
  \<comment> \<open>the blanks that the conversion skips on both sides, once the two blanks above
      127 have been turned into a space\<close>
  "c_isspace c = (let n = ord c in (9 \<le> n \<and> n \<le> 13) \<or> n = 32)"

definition to_ascii :: "char \<Rightarrow> char" where
  \<comment> \<open>code points from 127 on: a blank becomes a space, anything else (none of them is a
      decimal digit) a question mark\<close>
  "to_ascii c = (if ord c < 127 then c else if isspace c then CHR '' '' else CHR ''?'')"

fun underscores_ok :: "char \<Rightarrow> string \<Rightarrow> bool" where
  \<comment> \<open>an underscore only between two digits; the first argument is the previous character\<close>
  "underscores_ok prev [] = (prev \<noteq> CHR ''_'')"
| "underscores_ok prev (c # cs) =
     (if c = CHR ''_'' then isdigit prev \<and> underscores_ok c cs
      else (prev = CHR ''_'' \<longrightarrow> isdigit c) \<and> underscores_ok c cs)"

definition tolower :: "char \<Rightarrow> char" where
  "tolower c = (if 65 \<le> ord c \<and> ord c \<le> 90 then char_of (ord c + 32) else c)"

definition parse_sign :: "string \<Rightarrow> bool \<times> string" where
  \<comment> \<open>an optional sign: whether it is a minus, and the rest\<close>
  "parse_sign s =
     (case s of
        c # cs \<Rightarrow> if c = CHR ''-'' then (True, cs) else if c = CHR ''+'' then (False, cs) else (False, s)
      | [] \<Rightarrow> (False, s))"

definition parse_exponent :: "string \<Rightarrow> int \<times> string" where
  \<comment> \<open>an optional exponent part; it is consumed only when it has a digit\<close>
  "parse_exponent s =
     (case s of
        c # cs \<Rightarrow>
          if c = CHR ''e'' \<or> c = CHR ''E'' then
            (let (neg, t) = parse_sign cs; ds = takeWhile isdigit t
             in if ds = [] then (0, s)
                else ((if neg then - digits_val ds else digits_val ds),
                      dropWhile isdigit t))
          else (0, s)
      | [] \<Rightarrow> (0, s))"

definition parse_decimal :: "string \<Rightarrow> (rat \<times> string) option" where
  \<comment> \<open>an unsigned decimal number with at least one digit: its exact value and the rest\<close>
  "parse_decimal s =
     (let ip = takeWhile isdigit s; r1 = dropWhile isdigit s;
          (fp, r2) = (case r1 of
                        c # t \<Rightarrow> if c = CHR ''.'' then (takeWhile isdigit t, dropWhile isdigit t)
                                 else ([], r1)
                      | [] \<Rightarrow> ([], r1))
      in if ip = [] \<and> fp = [] then None
         else let (ex, r3) = parse_exponent r2
              in Some (of_int (digits_val (ip @ fp)) * pow10 (ex - int (length fp)), r3))"

definition parse_inf_or_nan :: "string \<Rightarrow> (pyfloat \<times> string) option" where
  "parse_inf_or_nan s =
     (let (neg, t) = parse_sign s; l = map tolower t
      in if startswith l ''inf'' then
           Some (if neg then NInf else PInf,
                 if startswith (drop 3 l) ''inity'' then drop 8 t else drop 3 t)
         else if startswith l ''nan'' then Some (NaN, drop 3 t)
         else None)"

definition string_to_double :: "string \<Rightarrow> (pyfloat \<times> string) option" where
  "string_to_double s =
     (let (neg, t) = parse_sign s
      in case parse_decimal t of
           Some (v, r) \<Rightarrow> Some (rnd (if neg then - v else v), r)
         | None \<Rightarrow> parse_inf_or_nan s)"

definition py_float :: "string \<Rightarrow> exn + pyfloat" where
  \<comment> \<open>\<^verbatim>\<open>float(s)\<close>: ValueError unless the whole of \<open>s\<close>, blanks on both sides apart, is a number\<close>
  "py_float s =
     (let a = map to_ascii s
      in if \<not> underscores_ok (CHR 0x00) a then Inl ValueError
         else case string_to_double (dropWhile c_isspace (filter (\<lambda>c. c \<noteq> CHR ''_'') a)) of
                None \<Rightarrow> Inl ValueError
              | Some (v, r) \<Rightarrow> if dropWhile c_isspace r = [] then Inr v else Inl ValueError)"

section \<open>The sentence validator and the sentence parser\<close>

type_synonym gnss_fix = "string \<times> pyfloat \<times> pyfloat \<times> pyfloat"

definition empty_field :: "string \<Rightarrow> bool" where
  \<comment> \<open>\<^verbatim>\<open>not s\<close> for a string\<close>
  "empty_field s = (s = [])"

definition plausible :: "string \<Rightarrow> string \<Rightarrow> string \<Rightarrow> exn + bool" where
  \<comment> \<open>the body of the \<^verbatim>\<open>try\<close> block of \<^verbatim>\<open>is_valid_gngga_line\<close>\<close>
  "plausible lat_raw lon_raw alt_str =
     then_do (py_float lat_raw) (\<lambda>lat_val.
     then_do (py_float lon_raw) (\<lambda>lon_val.
     then_do (py_float alt_str) (\<lambda>alt_val.
       if feq lat_val (Fin 0) \<or> feq lon_val (Fin 0) then Inr False
       else if \<not> (fle (Fin 0) lat_val \<and> fle lat_val (Fin 9000)) then Inr False
       else if \<not> (fle (Fin 0) lon_val \<and> fle lon_val (Fin 18000)) then Inr False
       else if \<not> (fle (Fin (- 1000)) alt_val \<and> fle alt_val (Fin 10000)) then Inr False
       else Inr True)))"

definition is_valid_gngga_line :: "string \<Rightarrow> exn + bool" where
  "is_valid_gngga_line line =
     (if \<not> startswith line ''$GNGGA'' then Inr False
      else
        let parts = split (CHR '','') line
        in if length parts < 15 then Inr False
           else
             then_do (index parts 2) (\<lambda>lat_raw.
             then_do (index parts 3) (\<lambda>lat_dir.
             then_do (index parts 4) (\<lambda>lon_raw.
             then_do (index parts 5) (\<lambda>lon_dir.
             then_do (index parts 9) (\<lambda>alt_str.
               if empty_field lat_raw \<or> empty_field lat_dir \<or> empty_field lon_raw
                  \<or> empty_field lon_dir \<or> empty_field alt_str
               then Inr False
               else case plausible lat_raw lon_raw alt_str of
                      Inl ValueError \<Rightarrow> Inr False
                    | Inl e \<Rightarrow> Inl e
                    | Inr b \<Rightarrow> Inr b))))))"

definition convert :: "string \<Rightarrow> string \<Rightarrow> exn + pyfloat" where
  "convert coord direction =
     then_do (py_float coord) (\<lambda>coord_val.
     then_do (fdiv coord_val (Fin 100)) (\<lambda>hundredth.
     then_do (py_int hundredth) (\<lambda>deg.
     then_do (int_to_float (deg * 100)) (\<lambda>deg100.
     then_do (int_to_float deg) (\<lambda>degf.
     then_do (fdiv (fsub coord_val deg100) (Fin 60)) (\<lambda>sixtieth.
       let decimal = fadd degf sixtieth
       in if direction = ''S'' \<or> direction = ''W'' then Inr (fmul decimal (Fin (- 1)))
          else Inr decimal))))))"

definition parse_body :: "string \<Rightarrow> exn + gnss_fix option" where
  \<comment> \<open>the body of the \<^verbatim>\<open>try\<close> block of \<^verbatim>\<open>parse_gngga\<close>\<close>
  "parse_body line =
     then_do (is_valid_gngga_line line) (\<lambda>ok.
       if \<not> ok then Inr None
       else
         let parts = split (CHR '','') line
         in if length parts < 10 then Inr None
            else
              then_do (index parts 0) (\<lambda>head.
              if \<not> endswith head ''GGA'' then Inr None
              else
                then_do (index parts 2) (\<lambda>lat_raw.
                then_do (index parts 3) (\<lambda>lat_dir.
                then_do (index parts 4) (\<lambda>lon_raw.
                then_do (index parts 5) (\<lambda>lon_dir.
                then_do (index parts 9) (\<lambda>alt_str.
                then_do (index parts 1) (\<lambda>utc_time.
                  if empty_field lat_raw \<or> empty_field lat_dir \<or> empty_field lon_raw
                     \<or> empty_field lon_dir \<or> empty_field alt_str
                  then Inr None
                  else
                    then_do (convert lat_raw lat_dir) (\<lambda>latitude.
                    then_do (convert lon_raw lon_dir) (\<lambda>longitude.
                    then_do (py_float alt_str) (\<lambda>altitude.
                      if \<not> (fle (Fin (- 90)) latitude \<and> fle latitude (Fin 90)) then Inr None
                      else if \<not> (fle (Fin (- 180)) longitude \<and> fle longitude (Fin 180))
                      then Inr None
                      else if \<not> (fle (Fin (- 1000)) altitude \<and> fle altitude (Fin 10000))
                      then Inr None
                      else Inr (Some (utc_time, latitude, longitude, altitude)))))))))))))"

definition parse_gngga :: "string \<Rightarrow> exn + gnss_fix option" where
  \<comment> \<open>\<^verbatim>\<open>except (ValueError, IndexError, TypeError)\<close> turns these three into \<^verbatim>\<open>None\<close>\<close>
  "parse_gngga line =
     (case parse_body line of
        Inl ValueError \<Rightarrow> Inr None
      | Inl IndexError \<Rightarrow> Inr None
      | Inl TypeError \<Rightarrow> Inr None
      | Inl e \<Rightarrow> Inl e
      | Inr r \<Rightarrow> Inr r)"

section \<open>The log reader\<close>

text \<open>
  What the program sees of the file system: the outcome of opening a file in text mode
  with a given encoding and reading its lines, the outcome of reading it in binary mode
  (already decoded, undecodable bytes dropped), and the outcome of asking for its size.
\<close>

record file_system =
  open_text :: "string \<Rightarrow> string \<Rightarrow> exn + string list"
  read_binary :: "string \<Rightarrow> exn + string"
  getsize :: "string \<Rightarrow> exn + nat"

definition encodings :: "string list" where
  "encodings = [''utf-8'', ''latin-1'', ''cp1252'', ''ascii'']"

fun read_raw_lines :: "file_system \<Rightarrow> string \<Rightarrow> string list \<Rightarrow> exn + string list" where
  \<comment> \<open>the \<^verbatim>\<open>for encoding in encodings\<close> loop with its \<^verbatim>\<open>else\<close> branch: the next encoding
      is tried after a UnicodeDecodeError only\<close>
  "read_raw_lines fs filename [] =
     then_do (read_binary fs filename) (\<lambda>raw_text. Inr (split (CHR 0x0A) raw_text))"
| "read_raw_lines fs filename (encoding # rest) =
     (case open_text fs filename encoding of
        Inl UnicodeDecodeError \<Rightarrow> read_raw_lines fs filename rest
      | Inl e \<Rightarrow> Inl e
      | Inr raw_lines \<Rightarrow> Inr raw_lines)"

definition keep_line :: "string \<Rightarrow> bool" where
  \<comment> \<open>the two nested conditions on a stripped line\<close>
  "keep_line line =
     ((startswith line ''$GNGGA'' \<and> 50 < length line)
      \<and> list_all (\<lambda>c. ord c < 128 \<and> (isprintable c \<or> isspace c)) line)"

definition clean_lines :: "string list \<Rightarrow> string list" where
  \<comment> \<open>the \<^verbatim>\<open>for line in raw_lines\<close> loop, appending to \<^verbatim>\<open>valid_lines\<close>\<close>
  "clean_lines raw_lines =
     foldl (\<lambda>valid_lines raw.
              let line = strip raw
              in if keep_line line then valid_lines @ [line] else valid_lines)
           [] raw_lines"

definition read_latest_gnss_data :: "file_system \<Rightarrow> string \<Rightarrow> exn + string list" where
  \<comment> \<open>both handlers print a message and return the empty list\<close>
  "read_latest_gnss_data fs filename =
     (case then_do (read_raw_lines fs filename encodings) (\<lambda>raw_lines. Inr (clean_lines raw_lines)) of
        Inl FileNotFoundError \<Rightarrow> Inr []
      | Inl e \<Rightarrow> Inr []
      | Inr valid_lines \<Rightarrow> Inr valid_lines)"

section \<open>The fix resolver\<close>

fun scan_lines :: "string list \<Rightarrow> exn + gnss_fix option" where
  \<comment> \<open>the \<^verbatim>\<open>for line in reversed(lines)\<close> loop, on the reversed list\<close>
  "scan_lines [] = Inr None"
| "scan_lines (line # rest) =
     then_do (is_valid_gngga_line line) (\<lambda>ok.
       if ok then
         then_do (parse_gngga line) (\<lambda>parsed.
           case parsed of
             Some f \<Rightarrow> Inr (Some f)
           | None \<Rightarrow> scan_lines rest)
       else scan_lines rest)"

definition get_last_valid_position :: "file_system \<Rightarrow> string \<Rightarrow> exn + gnss_fix option" where
  "get_last_valid_position fs filename =
     then_do (read_latest_gnss_data fs filename) (\<lambda>lines.
       if lines = [] then Inr None else scan_lines (rev lines))"

fun parse_loop :: "string list \<Rightarrow> gnss_fix list \<Rightarrow> nat \<Rightarrow> exn + (gnss_fix list \<times> nat)" where
  \<comment> \<open>the \<^verbatim>\<open>for line in lines\<close> loop of the batch mode, from the current values of
      \<^verbatim>\<open>positions\<close> and \<^verbatim>\<open>skipped_count\<close>\<close>
  "parse_loop [] positions skipped_count = Inr (positions, skipped_count)"
| "parse_loop (line # rest) positions skipped_count =
     then_do (parse_gngga line) (\<lambda>parsed.
       case parsed of
         Some f \<Rightarrow> parse_loop rest (positions @ [f]) skipped_count
       | None \<Rightarrow> parse_loop rest positions (skipped_count + 1))"

definition load_positions :: "file_system \<Rightarrow> string \<Rightarrow> exn + (gnss_fix list \<times> nat)" where
  \<comment> \<open>the batch mode up to the two counts that it prints\<close>
  "load_positions fs filename =
     then_do (read_latest_gnss_data fs filename) (\<lambda>lines. parse_loop lines [] 0)"

section \<open>The local projection and the live mode\<close>

definition OBSERVER_LAT :: pyfloat where
  "OBSERVER_LAT = rnd (391961 / 10000)"

definition OBSERVER_LON :: pyfloat where
  "OBSERVER_LON = rnd (- (772568 / 10000))"

definition OBSERVER_ALT :: pyfloat where
  "OBSERVER_ALT = rnd 130"

definition np_pi :: pyfloat where
  \<comment> \<open>the binary64 number nearest to pi\<close>
  "np_pi = Fin (884279719003555 / 281474976710656)"

text \<open>
  \<^verbatim>\<open>np.cos\<close> belongs to NumPy, not to the program: \<open>geo_to_xy\<close> takes it as its first
  argument.
\<close>

definition geo_to_xy ::
  "(pyfloat \<Rightarrow> pyfloat) \<Rightarrow> pyfloat \<Rightarrow> pyfloat \<Rightarrow> pyfloat \<Rightarrow> pyfloat \<Rightarrow> exn + (pyfloat \<times> pyfloat)" where
  "geo_to_xy np_cos lat0 lon0 lat lon =
     then_do (int_to_float 6371000) (\<lambda>R.
     then_do (fdiv (fmul (fsub lon lon0) np_pi) (Fin 180)) (\<lambda>dlon.
     then_do (fdiv (fmul lat0 np_pi) (Fin 180)) (\<lambda>lat0_rad.
     then_do (fdiv (fmul (fsub lat lat0) np_pi) (Fin 180)) (\<lambda>dlat.
       let x = fmul (fmul dlon R) (np_cos lat0_rad);
           y = fmul dlat R
       in Inr (x, y)))))"

record live_state =
  live_path_x :: "pyfloat list"
  live_path_y :: "pyfloat list"
  live_path_z :: "pyfloat list"
  last_file_size :: nat

definition live_init :: live_state where
  "live_init = \<lparr>live_path_x = [], live_path_y = [], live_path_z = [], last_file_size = 0\<rparr>"

definition last_1000 :: "'a list \<Rightarrow> 'a list" where
  \<comment> \<open>the slice \<^verbatim>\<open>xs[-1000:]\<close>\<close>
  "last_1000 xs = drop (length xs - 1000) xs"

definition live_append :: "live_state \<Rightarrow> pyfloat \<times> pyfloat \<times> pyfloat \<Rightarrow> live_state" where
  \<comment> \<open>the three \<^verbatim>\<open>append\<close> calls and the limit on the path history\<close>
  "live_append st p =
     (case p of (x, y, z) \<Rightarrow>
        let st' = st\<lparr>live_path_x := live_path_x st @ [x],
                     live_path_y := live_path_y st @ [y],
                     live_path_z := live_path_z st @ [z]\<rparr>
        in if 1000 < length (live_path_x st')
           then st'\<lparr>live_path_x := last_1000 (live_path_x st'),
                    live_path_y := last_1000 (live_path_y st'),
                    live_path_z := last_1000 (live_path_z st')\<rparr>
           else st')"

definition unreasonable :: "pyfloat \<Rightarrow> pyfloat \<Rightarrow> pyfloat \<Rightarrow> bool" where
  "unreasonable x y z =
     (fgt (fabs x) (Fin 1000) \<or> fgt (fabs y) (Fin 1000) \<or> fgt (fabs z) (Fin 100))"

definition or_keep :: "exn + 'a \<Rightarrow> live_state \<Rightarrow> ('a \<Rightarrow> live_state) \<Rightarrow> live_state" where
  \<comment> \<open>the two handlers of the loop body only print: after an exception the state is the
      one reached so far\<close>
  "or_keep m st f = (case m of Inl e \<Rightarrow> st | Inr v \<Rightarrow> f v)"

definition live_iteration ::
  "(pyfloat \<Rightarrow> pyfloat) \<Rightarrow> file_system \<Rightarrow> string \<Rightarrow> live_state \<Rightarrow> live_state" where
  \<comment> \<open>one pass through the body of \<^verbatim>\<open>while True\<close>; the drawing calls change no variable
      of the loop\<close>
  "live_iteration np_cos fs filename st =
     or_keep (getsize fs filename) st (\<lambda>current_file_size.
       if current_file_size \<noteq> last_file_size st then
         let st1 = st\<lparr>last_file_size := current_file_size\<rparr>
         in or_keep (get_last_valid_position fs filename) st1 (\<lambda>latest_pos.
              case latest_pos of
                None \<Rightarrow> st1
              | Some (utc_time, lat, lon, alt) \<Rightarrow>
                  or_keep (geo_to_xy np_cos OBSERVER_LAT OBSERVER_LON lat lon) st1 (\<lambda>(x, y).
                    let z = fsub alt OBSERVER_ALT
                    in if unreasonable x y z then st1
                       else live_append st1 (x, y, z)))
       else st)"

definition live_gnss_playback ::
  "(pyfloat \<Rightarrow> pyfloat) \<Rightarrow> file_system list \<Rightarrow> string \<Rightarrow> live_state" where
  \<comment> \<open>the state after as many passes as the list has file-system snapshots, one per pass\<close>
  "live_gnss_playback np_cos snapshots filename =
     foldl (\<lambda>st fs. live_iteration np_cos fs filename st) live_init snapshots"

section \<open>Sample sentences\<close>

definition example_line :: string where
  \<comment> \<open>a well-formed sentence\<close>
  "example_line = ''$GNGGA,123456.00,3911.766,N,07715.408,W,1,08,0.9,130.0,M,46.9,M,,*47''"

definition overshoot_line :: string where
  \<comment> \<open>89 degrees and 99 minutes of latitude: plausible as a raw value, beyond 90 degrees
      once converted\<close>
  "overshoot_line = ''$GNGGA,123457.00,8999.000,N,07715.408,W,1,08,0.9,130.0,M,46.9,M,,*47''"

definition zero_line :: string where
  \<comment> \<open>a zero latitude magnitude, every other field as in the well-formed sentence\<close>
  "zero_line = ''$GNGGA,123456.00,0000.000,N,07715.408,W,1,08,0.9,130.0,M,46.9,M,,*47''"

definition garbled_line :: string where
  \<comment> \<open>a latitude field that is not a number\<close>
  "garbled_line = ''$GNGGA,123456.00,39x1.766,N,07715.408,W,1,08,0.9,130.0,M,46.9,M,,*47''"

definition far_line :: string where
  \<comment> \<open>a well-formed sentence one degree of longitude west of the observer\<close>
  "far_line = ''$GNGGA,123458.00,3911.766,N,07815.408,W,1,08,0.9,130.0,M,46.9,M,,*47''"

section \<open>Sample file systems and states\<close>

definition sample_fs :: "string list \<Rightarrow> file_system" where
  \<comment> \<open>a file system in which every file opens with every encoding and has the given lines\<close>
  "sample_fs raw_lines =
     \<lparr>open_text = (\<lambda>filename encoding. Inr raw_lines),
      read_binary = (\<lambda>filename. Inr []),
      getsize = (\<lambda>filename. Inr (length raw_lines))\<rparr>"

definition missing_fs :: file_system where
  \<comment> \<open>a file system without any file\<close>
  "missing_fs =
     \<lparr>open_text = (\<lambda>filename encoding. Inl FileNotFoundError),
      read_binary = (\<lambda>filename. Inl FileNotFoundError),
      getsize = (\<lambda>filename. Inl FileNotFoundError)\<rparr>"

definition noisy_file :: "string list" where
  \<comment> \<open>the lines of a file: noise, a well-formed sentence with its line end, a sentence
      that is too short\<close>
  "noisy_file = [''  x '', example_line @ [CHR 0x0A], ''$GNGGA,short'']"

definition full_window :: live_state where
  \<comment> \<open>a live state whose window holds 1000 points\<close>
  "full_window =
     \<lparr>live_path_x = replicate 1000 (Fin 1), live_path_y = replicate 1000 (Fin 2),
      live_path_z = replicate 1000 (Fin 3), last_file_size = 7\<rparr>"

definition sample_cos :: "pyfloat \<Rightarrow> pyfloat" where
  \<comment> \<open>a stand-in for \<^verbatim>\<open>np.cos\<close> that is finite on finite arguments\<close>
  "sample_cos v = (case v of Fin q \<Rightarrow> Fin (3 / 4) | _ \<Rightarrow> NaN)"

section \<open>Notions used to state the results\<close>

definition fix_of :: "string \<Rightarrow> gnss_fix option" where
  \<comment> \<open>the fix of a line that \<open>parse_gngga\<close> parses, \<open>None\<close> for any other outcome\<close>
  "fix_of line = (case parse_gngga line of Inr r \<Rightarrow> r | Inl e \<Rightarrow> None)"

definition parsed_fixes :: "string list \<Rightarrow> gnss_fix list" where
  \<comment> \<open>the fixes of the lines that parse, in the order of the lines\<close>
  "parsed_fixes lines = List.map_filter fix_of lines"

definition window_ok :: "live_state \<Rightarrow> bool" where
  \<comment> \<open>the three coordinate lists have one length, at most 1000\<close>
  "window_ok st \<longleftrightarrow>
     length (live_path_y st) = length (live_path_x st)
     \<and> length (live_path_z st) = length (live_path_x st)
     \<and> length (live_path_x st) \<le> 1000"

definition bounded_by :: "rat \<Rightarrow> pyfloat \<Rightarrow> bool" where
  \<comment> \<open>a finite float of magnitude at most \<open>b\<close>\<close>
  "bounded_by b v \<longleftrightarrow> (\<exists>r. v = Fin r \<and> \<bar>r\<bar> \<le> b)"

definition reasonable_window :: "live_state \<Rightarrow> bool" where
  \<comment> \<open>every stored point lies within 1000 m east and north and 100 m vertically\<close>
  "reasonable_window st \<longleftrightarrow>
     (\<forall>v \<in> set (live_path_x st). bounded_by 1000 v)
     \<and> (\<forall>v \<in> set (live_path_y st). bounded_by 1000 v)
     \<and> (\<forall>v \<in> set (live_path_z st). bounded_by 100 v)"

definition spec_decimal_degrees :: "rat \<Rightarrow> string \<Rightarrow> exn + pyfloat" where
  \<comment> \<open>the conversion in the words of the specification, on a finite raw magnitude:
      degrees = floor(raw / 100), minutes = raw - degrees * 100,
      decimal degrees = degrees + minutes / 60, sign flipped for South and West\<close>
  "spec_decimal_degrees raw hemisphere =
     then_do (fdiv (Fin raw) (Fin 100)) (\<lambda>hundredth.
       case hundredth of
         Fin h \<Rightarrow>
           let degrees = \<lfloor>h\<rfloor>;
               minutes = fsub (Fin raw) (Fin (of_int (degrees * 100)))
           in then_do (fdiv minutes (Fin 60)) (\<lambda>sixtieth.
                let decimal = fadd (Fin (of_int degrees)) sixtieth
                in Inr (if hemisphere = ''S'' \<or> hemisphere = ''W'' then fneg decimal
                        else decimal))
       | _ \<Rightarrow> Inl OverflowError)"

definition window :: "live_state \<Rightarrow> (pyfloat \<times> pyfloat \<times> pyfloat) list" where
  \<comment> \<open>the points of the live window, oldest first: the three coordinate lists read side by
      side\<close>
  "window st = zip (live_path_x st) (zip (live_path_y st) (live_path_z st))"

definition new_point ::
  "(pyfloat \<Rightarrow> pyfloat) \<Rightarrow> file_system \<Rightarrow> string \<Rightarrow> live_state
     \<Rightarrow> (pyfloat \<times> pyfloat \<times> pyfloat) option" where
  \<comment> \<open>the point that one pass of the live loop hands to the three \<^verbatim>\<open>append\<close> calls, if it
      gets that far: the file size differs from the last one seen, a latest fix is found,
      and its offset from the observer is not unreasonable\<close>
  "new_point np_cos fs filename st =
     (case getsize fs filename of
        Inl e \<Rightarrow> None
      | Inr current_file_size \<Rightarrow>
          if current_file_size = last_file_size st then None
          else case get_last_valid_position fs filename of
                 Inr (Some (utc_time, lat, lon, alt)) \<Rightarrow>
                   (case geo_to_xy np_cos OBSERVER_LAT OBSERVER_LON lat lon of
                      Inr (x, y) \<Rightarrow>
                        if unreasonable x y (fsub alt OBSERVER_ALT) then None
                        else Some (x, y, fsub alt OBSERVER_ALT)
                    | Inl e \<Rightarrow> None)
               | _ \<Rightarrow> None)"

fun points_stored ::
  "(pyfloat \<Rightarrow> pyfloat) \<Rightarrow> string \<Rightarrow> live_state \<Rightarrow> file_system list
     \<Rightarrow> (pyfloat \<times> pyfloat \<times> pyfloat) list" where
  \<comment> \<open>every point handed to the \<^verbatim>\<open>append\<close> calls during the passes over the given
      snapshots, from the given state on, in the order of the passes\<close>
  "points_stored np_cos filename st [] = []"
| "points_stored np_cos filename st (fs # rest) =
     (case new_point np_cos fs filename st of None \<Rightarrow> [] | Some p \<Rightarrow> [p])
     @ points_stored np_cos filename (live_iteration np_cos fs filename st) rest"

section \<open>Properties of the arithmetic\<close>

lemma then_do_Inr [simp]: "then_do (Inr v) f = f v"
  by (simp add: then_do_def)

lemma then_do_Inl [simp]: "then_do (Inl e) f = Inl e"
  by (simp add: then_do_def)

lemma pow_int_eq: "pow_int b n = b ^ nat n"
proof (induction b n rule: pow_int.induct)
  case (1 b n)
  show ?case
  proof (cases "n \<le> 0")
    case True
    then show ?thesis by (subst pow_int.simps) simp
  next
    case pos: False
    have sq: "(b * b) ^ nat (n div 2) = b ^ (2 * nat (n div 2))"
      by (simp add: power_mult power2_eq_square)
    show ?thesis
    proof (cases "even n")
      case True
      then obtain k where k: "n = 2 * k" by (elim evenE)
      with pos have "2 * nat (n div 2) = nat n" by (simp add: nat_mult_distrib)
      with 1(1)[OF pos True] sq show ?thesis
        by (subst pow_int.simps) (simp add: pos True)
    next
      case odd: False
      then obtain k where k: "n = 2 * k + 1" by (elim oddE)
      with pos have "Suc (2 * nat (n div 2)) = nat n"
        by (simp add: nat_add_distrib nat_mult_distrib)
      then have "b ^ nat n = b * b ^ (2 * nat (n div 2))"
        by (metis power_Suc)
      with 1(2)[OF pos odd] sq show ?thesis
        by (subst pow_int.simps) (simp add: pos odd)
    qed
  qed
qed

lemma pow2_powi: "pow2 e = 2 powi e"
proof (cases "0 \<le> e")
  case True
  then show ?thesis by (simp add: pow2_def pow_int_eq power_int_def)
next
  case False
  have "inverse (2::rat) ^ nat (- e) = 1 / 2 ^ nat (- e)"
    by (simp add: inverse_eq_divide power_one_over)
  with False show ?thesis by (simp add: pow2_def pow_int_eq power_int_def)
qed

lemma pow2_pos: "0 < pow2 e"
  by (simp add: pow2_powi)

lemma pow2_mono: "a \<le> b \<Longrightarrow> pow2 a \<le> pow2 b"
  by (simp add: pow2_powi power_int_increasing)

lemma pow2_le_one: "e \<le> 0 \<Longrightarrow> pow2 e \<le> 1"
  using pow2_mono[of e 0] by (simp add: pow2_powi)

lemma pow2_1024_large: "(1000000000000000000::rat) < pow2 1024"
  by (simp add: pow2_powi)

lemma ilog2_nonneg: "0 \<le> ilog2 n"
  by (induction n rule: ilog2.induct) (subst ilog2.simps, simp)

lemma ilog2_lower: "1 \<le> n \<Longrightarrow> 2 ^ nat (ilog2 n) \<le> n"
proof (induction n rule: ilog2.induct)
  case (1 n)
  show ?case
  proof (cases "n < 2")
    case True
    with 1(2) show ?thesis by (subst ilog2.simps) simp
  next
    case False
    then have h: "1 \<le> n div 2" by simp
    have "(2::int) ^ nat (1 + ilog2 (n div 2)) = 2 * 2 ^ nat (ilog2 (n div 2))"
      using ilog2_nonneg[of "n div 2"] by (simp add: nat_add_distrib)
    also have "\<dots> \<le> 2 * (n div 2)"
      using 1(1)[OF False h] by simp
    also have "\<dots> \<le> n" by simp
    finally show ?thesis
      by (subst ilog2.simps) (simp add: False)
  qed
qed

lemma ilog2_upper: "1 \<le> n \<Longrightarrow> n < 2 ^ nat (ilog2 n + 1)"
proof (induction n rule: ilog2.induct)
  case (1 n)
  show ?case
  proof (cases "n < 2")
    case True
    with 1(2) show ?thesis by (subst ilog2.simps) simp
  next
    case False
    then have h: "1 \<le> n div 2" by simp
    have e: "(2::int) ^ nat (1 + ilog2 (n div 2) + 1) = 2 * 2 ^ nat (ilog2 (n div 2) + 1)"
      using ilog2_nonneg[of "n div 2"] by (simp add: nat_add_distrib)
    have "n div 2 < 2 ^ nat (ilog2 (n div 2) + 1)"
      using 1(1)[OF False h] .
    then have "n < 2 * 2 ^ nat (ilog2 (n div 2) + 1)" by linarith
    with e show ?thesis
      by (subst ilog2.simps) (simp add: False)
  qed
qed

lemma round_half_even_near: "\<bar>of_int (round_half_even x) - x\<bar> \<le> 1 / 2"
proof -
  have "of_int \<lfloor>x\<rfloor> \<le> x" "x < of_int \<lfloor>x\<rfloor> + 1" by linarith+
  then show ?thesis
    by (auto simp: round_half_even_def Let_def)
qed

lemma round_half_even_of_int [simp]: "round_half_even (of_int n) = n"
  by (simp add: round_half_even_def)

lemma round_half_even_nonneg: "0 \<le> x \<Longrightarrow> 0 \<le> round_half_even x"
  by (auto simp: round_half_even_def Let_def)


lemma binade_lower: "1 \<le> x \<Longrightarrow> pow2 (binade x) \<le> x"
proof -
  assume x: "1 \<le> x"
  then have f: "1 \<le> \<lfloor>x\<rfloor>" by simp
  have "pow2 (binade x) = 2 ^ nat (ilog2 \<lfloor>x\<rfloor>)"
    using x ilog2_nonneg[of "\<lfloor>x\<rfloor>"] by (simp add: binade_def pow2_def pow_int_eq)
  also have "\<dots> = of_int (2 ^ nat (ilog2 \<lfloor>x\<rfloor>))" by simp
  also have "\<dots> \<le> of_int \<lfloor>x\<rfloor>"
    using ilog2_lower[OF f] by (simp only: of_int_le_iff)
  also have "\<dots> \<le> x" by simp
  finally show ?thesis .
qed

lemma binade_negative: "x < 1 \<Longrightarrow> binade x < 0"
  using ilog2_nonneg[of "\<lceil>1 / x\<rceil> - 1"] by (simp add: binade_def)

lemma ulp_le: "0 < a \<Longrightarrow> pow2 (max (binade a) (- 1022) - 52) \<le> max a 1"
proof (cases "1 \<le> a")
  case True
  have "pow2 (max (binade a) (- 1022) - 52) \<le> pow2 (max (binade a) 0)"
    by (rule pow2_mono) simp
  also have "\<dots> \<le> max (pow2 (binade a)) (pow2 0)"
    by (simp add: max_def)
  also have "\<dots> \<le> max a 1"
    using binade_lower[OF True] by (simp add: pow2_powi max_def)
  finally show ?thesis .
next
  case False
  then have "binade a < 0" by (simp add: binade_negative)
  then have "pow2 (max (binade a) (- 1022) - 52) \<le> 1"
    by (intro pow2_le_one) simp
  then show ?thesis by simp
qed

lemma rnd_bound:
  assumes "\<bar>x\<bar> \<le> B" and "1 \<le> B" and "B \<le> 100000000000000000"
  shows "\<exists>r. rnd x = Fin r \<and> \<bar>r\<bar> \<le> 2 * B"
proof (cases "x = 0")
  case True
  with assms show ?thesis by (simp add: rnd_def)
next
  case nz: False
  define a where "a = \<bar>x\<bar>"
  define q where "q = pow2 (max (binade a) (- 1022) - 52)"
  define r where "r = of_int (round_half_even (a / q)) * q"
  have a: "0 < a" using nz by (simp add: a_def)
  have q: "0 < q" by (simp add: q_def pow2_pos)
  have ql: "q \<le> max a 1" unfolding q_def by (rule ulp_le[OF a])
  have "\<bar>of_int (round_half_even (a / q)) - a / q\<bar> \<le> 1 / 2"
    by (rule round_half_even_near)
  then have "of_int (round_half_even (a / q)) \<le> a / q + 1 / 2" by linarith
  then have "r \<le> (a / q + 1 / 2) * q"
    unfolding r_def using q by (simp only: mult_le_cancel_right_pos)
  also have "\<dots> = a + q / 2" using q by (simp add: field_simps)
  finally have ru: "r \<le> a + q / 2" .
  have r0: "0 \<le> r"
    unfolding r_def using a q by (simp add: round_half_even_nonneg)
  have aB: "a \<le> B" using assms by (simp add: a_def)
  with ql assms have "q \<le> B" by (simp add: max_def split: if_splits)
  with ru aB assms(2) have rB: "r \<le> 2 * B" by linarith
  with assms pow2_1024_large have fin: "\<not> pow2 1024 \<le> r" by linarith
  have "rnd x = Fin (if 0 < x then r else - r)"
    using nz fin by (simp add: rnd_def Let_def a_def[symmetric] q_def[symmetric] r_def[symmetric])
  with r0 rB show ?thesis by auto
qed

lemma rnd_nonneg: "0 \<le> x \<Longrightarrow> rnd x = Fin r \<Longrightarrow> 0 \<le> r"
proof -
  assume x: "0 \<le> x" and r: "rnd x = Fin r"
  show ?thesis
  proof (cases "x = 0")
    case True
    with r show ?thesis by (simp add: rnd_def)
  next
    case False
    with x have pos: "0 < x" by simp
    let ?q = "pow2 (max (binade \<bar>x\<bar>) (- 1022) - 52)"
    have "0 \<le> of_int (round_half_even (\<bar>x\<bar> / ?q)) * ?q"
      using pos pow2_pos[of "max (binade \<bar>x\<bar>) (- 1022) - 52"]
      by (simp add: round_half_even_nonneg)
    with r False pos show ?thesis
      by (auto simp: rnd_def Let_def split: if_splits)
  qed
qed

lemma rnd_of_int_exact:
  assumes "\<bar>n\<bar> < 2 ^ 53"
  shows "rnd (of_int n) = Fin (of_int n)"
proof (cases "n = 0")
  case True
  then show ?thesis by (simp add: rnd_def)
next
  case False
  define a :: int where "a = \<bar>n\<bar>"
  have a1: "1 \<le> a" using False by (simp add: a_def)
  define k where "k = ilog2 a"
  have k0: "0 \<le> k" by (simp add: k_def ilog2_nonneg)
  have "(2::int) ^ nat k \<le> a" unfolding k_def by (rule ilog2_lower[OF a1])
  with assms have lt: "(2::int) ^ nat k < 2 ^ 53" by (simp add: a_def)
  have "(1::int) < 2" by simp
  from power_less_imp_less_exp[OF this lt] have "nat k < 53" .
  with k0 have k52: "k \<le> 52" by simp
  have ab: "\<bar>rat_of_int n\<bar> = of_int a" by (simp add: a_def)
  have bin: "binade (of_int a) = k" using a1 by (simp add: binade_def k_def)
  have e: "max k (- 1022) = k" using k0 by simp
  have q: "pow2 (k - 52) = 1 / 2 ^ nat (52 - k)"
    using k52 by (cases "k = 52") (simp_all add: pow2_def pow_int_eq)
  have quot: "of_int a / pow2 (k - 52) = rat_of_int (a * 2 ^ nat (52 - k))"
    by (simp add: q)
  have r: "of_int (round_half_even (of_int a / pow2 (k - 52))) * pow2 (k - 52) = rat_of_int a"
    unfolding quot round_half_even_of_int by (simp add: q)
  have "rat_of_int a < 2 ^ 53" using assms unfolding a_def by (simp flip: of_int_less_iff[where 'a = rat])
  also have "\<dots> < pow2 1024" using pow2_1024_large by simp
  finally have fin: "\<not> pow2 1024 \<le> rat_of_int a" by simp
  have nz: "rat_of_int n \<noteq> 0" using False by simp
  have "rnd (of_int n) = Fin (if 0 < rat_of_int n then of_int a else - of_int a)"
    using nz fin by (simp add: rnd_def Let_def ab bin e r)
  then show ?thesis by (auto simp: a_def)
qed

lemma fdiv_nonzero: "y \<noteq> 0 \<Longrightarrow> \<exists>r. fdiv a (Fin y) = Inr r"
  by (cases a) simp_all

lemma pow2_strict_mono: "a < b \<Longrightarrow> pow2 a < pow2 b"
  by (simp add: pow2_powi power_int_strict_increasing)

lemma pow2_le_imp_le: "pow2 a \<le> pow2 b \<Longrightarrow> a \<le> b"
  using pow2_strict_mono[of b a] by (cases "a \<le> b") auto

lemma pow2_add: "pow2 (a + b) = pow2 a * pow2 b"
  by (simp add: pow2_powi power_int_add)

lemma pow2_diff: "pow2 (a - b) = pow2 a / pow2 b"
  by (simp add: pow2_powi power_int_diff)

lemma pow2_nat: "0 \<le> k \<Longrightarrow> pow2 k = 2 ^ nat k"
  by (simp add: pow2_def pow_int_eq)

lemma pow2_neg: "0 \<le> k \<Longrightarrow> pow2 (- k) = 1 / 2 ^ nat k"
  using pow2_diff[of 0 k] by (simp add: pow2_nat)

lemma binade_upper_ge1:
  assumes "1 \<le> x"
  shows "x < pow2 (binade x + 1)"
proof -
  from assms have f: "1 \<le> \<lfloor>x\<rfloor>" by simp
  have k: "0 \<le> ilog2 \<lfloor>x\<rfloor> + 1" using ilog2_nonneg[of "\<lfloor>x\<rfloor>"] by simp
  from ilog2_upper[OF f] have "\<lfloor>x\<rfloor> + 1 \<le> 2 ^ nat (ilog2 \<lfloor>x\<rfloor> + 1)" by simp
  then have "rat_of_int (\<lfloor>x\<rfloor> + 1) \<le> rat_of_int (2 ^ nat (ilog2 \<lfloor>x\<rfloor> + 1))"
    by (rule iffD2[OF of_int_le_iff])
  moreover have "x < rat_of_int (\<lfloor>x\<rfloor> + 1)" by linarith
  ultimately have "x < rat_of_int (2 ^ nat (ilog2 \<lfloor>x\<rfloor> + 1))" by linarith
  then have "x < 2 ^ nat (ilog2 \<lfloor>x\<rfloor> + 1)" by simp
  then show ?thesis using assms k by (simp add: binade_def pow2_nat)
qed

lemma binade_bounds_lt1:
  assumes "0 < x" and "x < 1"
  shows "pow2 (binade x) \<le> x" and "x < pow2 (binade x + 1)"
proof -
  define m where "m = \<lceil>1 / x\<rceil>"
  define j where "j = ilog2 (m - 1)"
  have inv: "1 < 1 / x" using assms by simp
  then have m2: "2 \<le> m" unfolding m_def by (simp add: le_ceiling_iff)
  then have m1: "1 \<le> m - 1" by simp
  have j0: "0 \<le> j" by (simp add: j_def ilog2_nonneg)
  have b: "binade x = - (1 + j)" using assms by (simp add: binade_def m_def j_def)
  \<comment> \<open>lower bound\<close>
  from ilog2_upper[OF m1] have "m \<le> 2 ^ nat (j + 1)" by (simp add: j_def)
  then have "rat_of_int m \<le> rat_of_int (2 ^ nat (j + 1))" by (rule iffD2[OF of_int_le_iff])
  moreover have "1 / x \<le> rat_of_int m" unfolding m_def by simp
  ultimately have "1 / x \<le> rat_of_int (2 ^ nat (j + 1))" by linarith
  then have "1 / x \<le> 2 ^ nat (j + 1)" by simp
  then have "1 / 2 ^ nat (j + 1) \<le> x" using assms(1) by (simp add: field_simps)
  moreover have "pow2 (- (1 + j)) = 1 / 2 ^ nat (j + 1)"
    using pow2_neg[of "1 + j"] j0 by (simp add: add.commute)
  ultimately show "pow2 (binade x) \<le> x" by (simp add: b)
  \<comment> \<open>upper bound\<close>
  from ilog2_lower[OF m1] have "2 ^ nat j \<le> m - 1" by (simp add: j_def)
  then have "rat_of_int (2 ^ nat j) \<le> rat_of_int (m - 1)" by (rule iffD2[OF of_int_le_iff])
  moreover have "rat_of_int (m - 1) < 1 / x" unfolding m_def by linarith
  ultimately have "rat_of_int (2 ^ nat j) < 1 / x" by linarith
  then have "2 ^ nat j < 1 / x" by simp
  then have "x < 1 / 2 ^ nat j" using assms(1) by (simp add: field_simps)
  moreover have "pow2 (- j) = 1 / 2 ^ nat j" using pow2_neg[OF j0] .
  ultimately show "x < pow2 (binade x + 1)" by (simp add: b)
qed

lemma binade_bounds:
  assumes "0 < x"
  shows "pow2 (binade x) \<le> x" and "x < pow2 (binade x + 1)"
  using assms binade_lower[of x] binade_upper_ge1[of x] binade_bounds_lt1[of x]
  by (cases "1 \<le> x"; simp)+

lemma rnd_minus: "rnd (- x) = fneg (rnd x)"
  by (cases "x = 0") (auto simp: rnd_def Let_def)

lemma rnd_idem_pos:
  assumes x: "0 < x" and r: "rnd x = Fin r"
  shows "rnd r = Fin r"
proof -
  define e where "e = max (binade x) (- 1022)"
  define q where "q = pow2 (e - 52)"
  define n where "n = round_half_even (x / q)"
  have q0: "0 < q" by (simp add: q_def pow2_pos)
  have n0: "0 \<le> n" unfolding n_def using x q0 by (simp add: round_half_even_nonneg)
  have ax: "\<bar>x\<bar> = x" using x by simp
  from r x have fin: "\<not> pow2 1024 \<le> of_int n * q" and rv: "r = of_int n * q"
    by (auto simp: rnd_def Let_def ax e_def[symmetric] q_def[symmetric] n_def[symmetric]
        split: if_splits)
  show ?thesis
  proof (cases "n = 0")
    case True
    with rv show ?thesis by (simp add: rnd_def)
  next
    case False
    with n0 have n1: "1 \<le> n" by simp
    then have rpos: "0 < r" using q0 by (simp add: rv)
    \<comment> \<open>the significand has at most 53 bits, or is \<open>2 ^ 53\<close>\<close>
    have "x < pow2 (binade x + 1)" by (rule binade_bounds(2)[OF x])
    also have "\<dots> \<le> pow2 (e + 1)" by (rule pow2_mono) (simp add: e_def)
    finally have "x / q < pow2 (e + 1) / q" using q0 by (simp add: divide_strict_right_mono)
    also have "pow2 (e + 1) / q = pow2 53"
      unfolding q_def using pow2_diff[of "e + 1" "e - 52"] by simp
    also have "pow2 53 = 2 ^ 53" by (simp add: pow2_nat)
    finally have xq: "x / q < 2 ^ 53" .
    have "\<bar>of_int n - x / q\<bar> \<le> 1 / 2" unfolding n_def by (rule round_half_even_near)
    with xq have "rat_of_int n < 2 ^ 53 + 1" by linarith
    then have "rat_of_int n < rat_of_int (2 ^ 53 + 1)" by simp
    then have "n < 2 ^ 53 + 1" by (rule iffD1[OF of_int_less_iff])
    then have n53: "n \<le> 2 ^ 53" by simp
    then have "rat_of_int n \<le> rat_of_int (2 ^ 53)" by (rule iffD2[OF of_int_le_iff])
    then have "rat_of_int n \<le> pow2 53" by (simp add: pow2_nat)
    then have "r \<le> pow2 53 * q" unfolding rv using q0 by (simp only: mult_le_cancel_right_pos)
    also have "pow2 53 * q = pow2 (e + 1)"
      unfolding q_def using pow2_add[of 53 "e - 52"] by (simp add: add.commute)
    finally have rle: "r \<le> pow2 (e + 1)" .
    define e' where "e' = max (binade r) (- 1022)"
    have "pow2 (binade r) \<le> r" by (rule binade_bounds(1)[OF rpos])
    with rle have "pow2 (binade r) \<le> pow2 (e + 1)" by linarith
    then have br: "binade r \<le> e + 1" by (rule pow2_le_imp_le)
    have e_ge: "- 1022 \<le> e" by (simp add: e_def)
    have integral: "\<exists>k. r / pow2 (e' - 52) = rat_of_int k"
    proof (cases "e' \<le> e")
      case True
      have "r / pow2 (e' - 52) = of_int n * (pow2 (e - 52) / pow2 (e' - 52))"
        by (simp add: rv q_def)
      also have "pow2 (e - 52) / pow2 (e' - 52) = pow2 (e - e')"
        using pow2_diff[of "e - 52" "e' - 52"] by simp
      also have "pow2 (e - e') = rat_of_int (2 ^ nat (e - e'))"
        using True by (simp add: pow2_nat)
      finally have "r / pow2 (e' - 52) = rat_of_int (n * 2 ^ nat (e - e'))" by simp
      then show ?thesis by blast
    next
      case False
      with br e_ge have e'eq: "e' = e + 1" and "binade r = e + 1"
        by (simp_all add: e'_def max_def split: if_splits)
      with binade_bounds(1)[OF rpos] rle have "r = pow2 (e + 1)" by simp
      then have "r / pow2 (e' - 52) = pow2 (e + 1) / pow2 (e + 1 - 52)" by (simp add: e'eq)
      also have "\<dots> = pow2 52" using pow2_diff[of "e + 1" "e + 1 - 52"] by simp
      also have "\<dots> = rat_of_int (2 ^ 52)" by (simp add: pow2_nat)
      finally show ?thesis by blast
    qed
    then obtain k where k: "r / pow2 (e' - 52) = rat_of_int k" by blast
    have "of_int (round_half_even (r / pow2 (e' - 52))) * pow2 (e' - 52) = r"
      unfolding k round_half_even_of_int
      using k pow2_pos[of "e' - 52"] by (simp add: field_simps)
    moreover have "\<bar>r\<bar> = r" using rpos by simp
    moreover have "\<not> pow2 1024 \<le> r" using fin rv by simp
    ultimately show ?thesis
      using rpos by (simp add: rnd_def Let_def e'_def[symmetric])
  qed
qed

lemma rnd_idem: "rnd x = Fin r \<Longrightarrow> rnd r = Fin r"
proof -
  assume r: "rnd x = Fin r"
  consider "x = 0" | "0 < x" | "x < 0" by linarith
  then show ?thesis
  proof cases
    case 1
    with r show ?thesis by (auto simp: rnd_def)
  next
    case 2
    from rnd_idem_pos[OF this r] show ?thesis .
  next
    case 3
    then have p: "0 < - x" by simp
    from r have "rnd (- x) = Fin (- r)" by (simp add: rnd_minus)
    from rnd_idem_pos[OF p this] have "rnd (- r) = Fin (- r)" .
    then have "fneg (rnd r) = Fin (- r)" by (simp add: rnd_minus)
    then show ?thesis by (cases "rnd r") simp_all
  qed
qed

lemma fmul_minus_one: "fmul (fadd (Fin a) b) (Fin (- 1)) = fneg (fadd (Fin a) b)"
proof (cases b)
  case (Fin y)
  show ?thesis
  proof (cases "rnd (a + y)")
    case (Fin d)
    from rnd_idem[OF this] have "rnd (- d) = Fin (- d)" by (simp add: rnd_minus)
    with Fin \<open>b = Fin y\<close> show ?thesis by simp
  qed (simp_all add: \<open>b = Fin y\<close> signed_inf_def)
qed (simp_all add: signed_inf_def)

section \<open>Properties of the validator and of the parser\<close>

lemma py_float_cases: "py_float s = Inl ValueError \<or> (\<exists>v. py_float s = Inr v)"
  by (simp add: py_float_def Let_def split: option.split prod.split)

lemma fle_between:
  "fle (Fin a) v \<Longrightarrow> fle v (Fin b) \<Longrightarrow> \<exists>r. v = Fin r \<and> a \<le> r \<and> r \<le> b"
  by (cases v) simp_all

lemma index_in_range [simp]: "i < length xs \<Longrightarrow> index xs i = Inr (xs ! i)"
  by (simp add: index_def)

lemma plausible_cases:
  "plausible a b c = Inl ValueError \<or> (\<exists>r. plausible a b c = Inr r)"
proof -
  consider "py_float a = Inl ValueError" | "py_float b = Inl ValueError" | "py_float c = Inl ValueError"
    | va vb vc where "py_float a = Inr va" "py_float b = Inr vb" "py_float c = Inr vc"
    using py_float_cases[of a] py_float_cases[of b] py_float_cases[of c] by blast
  then show ?thesis
  proof cases
    case 1
    then show ?thesis by (simp add: plausible_def)
  next
    case 2
    with py_float_cases[of a] show ?thesis by (auto simp: plausible_def)
  next
    case 3
    with py_float_cases[of a] py_float_cases[of b] show ?thesis by (auto simp: plausible_def)
  next
    case 4
    then show ?thesis by (auto simp: plausible_def)
  qed
qed

lemma plausible_True:
  assumes "plausible a b c = Inr True"
  shows "\<exists>la lo al. py_float a = Inr (Fin la) \<and> 0 < la \<and> la \<le> 9000
             \<and> py_float b = Inr (Fin lo) \<and> 0 < lo \<and> lo \<le> 18000
             \<and> py_float c = Inr (Fin al) \<and> - 1000 \<le> al \<and> al \<le> 10000"
proof -
  from assms py_float_cases[of a] obtain va where va: "py_float a = Inr va"
    by (auto simp: plausible_def)
  from assms va py_float_cases[of b] obtain vb where vb: "py_float b = Inr vb"
    by (auto simp: plausible_def)
  from assms va vb py_float_cases[of c] obtain vc where vc: "py_float c = Inr vc"
    by (auto simp: plausible_def)
  from assms va vb vc have
    c1: "\<not> feq va (Fin 0)" "\<not> feq vb (Fin 0)" and
    c2: "fle (Fin 0) va" "fle va (Fin 9000)" and
    c3: "fle (Fin 0) vb" "fle vb (Fin 18000)" and
    c4: "fle (Fin (- 1000)) vc" "fle vc (Fin 10000)"
    by (simp_all add: plausible_def split: if_splits)
  from fle_between[OF c2] obtain la where la: "va = Fin la" "0 \<le> la" "la \<le> 9000" by auto
  from fle_between[OF c3] obtain lo where lo: "vb = Fin lo" "0 \<le> lo" "lo \<le> 18000" by auto
  from fle_between[OF c4] obtain al where al: "vc = Fin al" "- 1000 \<le> al" "al \<le> 10000" by auto
  from c1 la lo have "la \<noteq> 0" "lo \<noteq> 0" by auto
  with la lo al va vb vc show ?thesis by auto
qed

lemma handle_plausible:
  "(case plausible a b c of Inl ValueError \<Rightarrow> Inr False | Inl e \<Rightarrow> Inl e | Inr r \<Rightarrow> Inr r)
     = Inr (plausible a b c = Inr True)"
  using plausible_cases[of a b c] by auto

lemma is_valid_eq:
  "is_valid_gngga_line line =
     Inr (startswith line ''$GNGGA'' \<and> 15 \<le> length (split (CHR '','') line)
          \<and> \<not> empty_field (split (CHR '','') line ! 2)
          \<and> \<not> empty_field (split (CHR '','') line ! 3)
          \<and> \<not> empty_field (split (CHR '','') line ! 4)
          \<and> \<not> empty_field (split (CHR '','') line ! 5)
          \<and> \<not> empty_field (split (CHR '','') line ! 9)
          \<and> plausible (split (CHR '','') line ! 2) (split (CHR '','') line ! 4)
                (split (CHR '','') line ! 9) = Inr True)"
proof (cases "startswith line ''$GNGGA'' \<and> 15 \<le> length (split (CHR '','') line)")
  case False
  then show ?thesis by (auto simp: is_valid_gngga_line_def Let_def)
next
  case True
  let ?p = "split (CHR '','') line"
  from True have len: "2 < length ?p" "3 < length ?p" "4 < length ?p" "5 < length ?p" "9 < length ?p"
    by simp_all
  have nl: "\<not> length ?p < 15" using True by simp
  show ?thesis
    using True nl len by (simp add: is_valid_gngga_line_def Let_def handle_plausible)
qed

lemma convert_eq:
  assumes pf: "py_float coord = Inr (Fin v)" and v: "0 \<le> v" "v \<le> 18000"
  shows "\<exists>h m. rnd (v / 100) = Fin h \<and> 0 \<le> h \<and>
           fdiv (fsub (Fin v) (Fin (of_int (\<lfloor>h\<rfloor> * 100)))) (Fin 60) = Inr m \<and>
           convert coord direction =
             Inr (if direction = ''S'' \<or> direction = ''W''
                  then fmul (fadd (Fin (of_int \<lfloor>h\<rfloor>)) m) (Fin (- 1))
                  else fadd (Fin (of_int \<lfloor>h\<rfloor>)) m)"
proof -
  have "\<bar>v / 100\<bar> \<le> 180" using v by simp
  from rnd_bound[OF this] obtain h where h: "rnd (v / 100) = Fin h" "\<bar>h\<bar> \<le> 2 * 180"
    by auto
  have h0: "0 \<le> h" using rnd_nonneg[of "v / 100" h] v h by simp
  define deg where "deg = \<lfloor>h\<rfloor>"
  have "deg \<le> 360" unfolding deg_def using h(2) by (simp add: floor_le_iff)
  moreover have "0 \<le> deg" unfolding deg_def using h0 by simp
  ultimately have small: "\<bar>deg * 100\<bar> < 2 ^ 53" "\<bar>deg\<bar> < 2 ^ 53" by simp_all
  have i1: "int_to_float (deg * 100) = Inr (Fin (of_int (deg * 100)))"
    using rnd_of_int_exact[OF small(1)] by (simp add: int_to_float_def)
  have i2: "int_to_float deg = Inr (Fin (of_int deg))"
    using rnd_of_int_exact[OF small(2)] by (simp add: int_to_float_def)
  obtain m where m: "fdiv (fsub (Fin v) (Fin (of_int (deg * 100)))) (Fin 60) = Inr m"
    using fdiv_nonzero[of 60] by auto
  have d: "fdiv (Fin v) (Fin 100) = Inr (Fin h)" using h by simp
  have p: "py_int (Fin h) = Inr deg" using h0 by (simp add: deg_def)
  have "convert coord direction =
          Inr (if direction = ''S'' \<or> direction = ''W''
               then fmul (fadd (Fin (of_int deg)) m) (Fin (- 1))
               else fadd (Fin (of_int deg)) m)"
    unfolding convert_def by (simp only: pf d p i1 i2 m then_do_Inr Let_def) simp
  with h h0 m show ?thesis unfolding deg_def by blast
qed

lemma parse_gngga_invalid:
  "is_valid_gngga_line line = Inr False \<Longrightarrow> parse_gngga line = Inr None"
  by (simp add: parse_gngga_def parse_body_def)

lemma parse_gngga_valid:
  assumes valid: "is_valid_gngga_line line = Inr True"
  shows "\<exists>lat lon al.
           convert (split (CHR '','') line ! 2) (split (CHR '','') line ! 3) = Inr lat
         \<and> convert (split (CHR '','') line ! 4) (split (CHR '','') line ! 5) = Inr lon
         \<and> py_float (split (CHR '','') line ! 9) = Inr (Fin al)
         \<and> - 1000 \<le> al \<and> al \<le> 10000
         \<and> parse_gngga line =
             Inr (if endswith (split (CHR '','') line ! 0) ''GGA''
                     \<and> fle (Fin (- 90)) lat \<and> fle lat (Fin 90)
                     \<and> fle (Fin (- 180)) lon \<and> fle lon (Fin 180)
                  then Some (split (CHR '','') line ! 1, lat, lon, Fin al) else None)"
proof -
  let ?p = "split (CHR '','') line"
  from valid have conj: "startswith line ''$GNGGA'' \<and> 15 \<le> length ?p
      \<and> \<not> empty_field (?p ! 2) \<and> \<not> empty_field (?p ! 3) \<and> \<not> empty_field (?p ! 4)
      \<and> \<not> empty_field (?p ! 5) \<and> \<not> empty_field (?p ! 9)
      \<and> plausible (?p ! 2) (?p ! 4) (?p ! 9) = Inr True"
    by (subst (asm) is_valid_eq) simp
  then have iv: "15 \<le> length ?p" "plausible (?p ! 2) (?p ! 4) (?p ! 9) = Inr True"
    by simp_all
  from iv(1) have len: "0 < length ?p" "1 < length ?p" "2 < length ?p" "3 < length ?p"
    "4 < length ?p" "5 < length ?p" "9 < length ?p" "\<not> length ?p < 10"
    by linarith+
  from plausible_True[OF iv(2)] obtain la lo al where
    la: "py_float (?p ! 2) = Inr (Fin la)" "0 < la" "la \<le> 9000" and
    lo: "py_float (?p ! 4) = Inr (Fin lo)" "0 < lo" "lo \<le> 18000" and
    al: "py_float (?p ! 9) = Inr (Fin al)" "- 1000 \<le> al" "al \<le> 10000"
    by blast
  from convert_eq[OF la(1), of "?p ! 3"] la obtain lat where
    lat: "convert (?p ! 2) (?p ! 3) = Inr lat" by auto
  from convert_eq[OF lo(1), of "?p ! 5"] lo obtain lon where
    lon: "convert (?p ! 4) (?p ! 5) = Inr lon" by auto
  have ne: "\<not> (empty_field (?p ! 2) \<or> empty_field (?p ! 3) \<or> empty_field (?p ! 4)
              \<or> empty_field (?p ! 5) \<or> empty_field (?p ! 9))"
    using conj by simp
  have body: "parse_body line =
      (if \<not> endswith (?p ! 0) ''GGA'' then Inr None
       else if \<not> (fle (Fin (- 90)) lat \<and> fle lat (Fin 90)) then Inr None
       else if \<not> (fle (Fin (- 180)) lon \<and> fle lon (Fin 180)) then Inr None
       else if \<not> (fle (Fin (- 1000)) (Fin al) \<and> fle (Fin al) (Fin 10000)) then Inr None
       else Inr (Some (?p ! 1, lat, lon, Fin al)))"
    unfolding parse_body_def Let_def
    by (simp only: valid then_do_Inr len index_in_range ne lat lon al(1) if_False not_True_eq_False
        not_False_eq_True if_True simp_thms)
  have "parse_gngga line =
      Inr (if endswith (?p ! 0) ''GGA''
              \<and> fle (Fin (- 90)) lat \<and> fle lat (Fin 90)
              \<and> fle (Fin (- 180)) lon \<and> fle lon (Fin 180)
           then Some (?p ! 1, lat, lon, Fin al) else None)"
    unfolding parse_gngga_def body using al(2,3) by simp
  with lat lon al show ?thesis by blast
qed

lemma parse_gngga_cases: "\<exists>r. parse_gngga line = Inr r"
proof -
  from is_valid_eq[of line] obtain b where b: "is_valid_gngga_line line = Inr b" by blast
  show ?thesis
  proof (cases b)
    case True
    with b parse_gngga_valid[of line] show ?thesis by auto
  next
    case False
    with b parse_gngga_invalid[of line] show ?thesis by auto
  qed
qed

lemma parse_gngga_Some:
  assumes "parse_gngga line = Inr (Some f)"
  shows "is_valid_gngga_line line = Inr True"
    and "\<exists>lat lon al. f = (split (CHR '','') line ! 1, Fin lat, Fin lon, Fin al)
           \<and> - 90 \<le> lat \<and> lat \<le> 90 \<and> - 180 \<le> lon \<and> lon \<le> 180
           \<and> - 1000 \<le> al \<and> al \<le> 10000"
proof -
  from is_valid_eq[of line] obtain b where b: "is_valid_gngga_line line = Inr b" by blast
  from assms b parse_gngga_invalid[of line] show valid: "is_valid_gngga_line line = Inr True"
    by (cases b) auto
  from parse_gngga_valid[OF valid] obtain lat lon al where
    al: "- 1000 \<le> al" "al \<le> 10000" and
    p: "parse_gngga line =
          Inr (if endswith (split (CHR '','') line ! 0) ''GGA''
                  \<and> fle (Fin (- 90)) lat \<and> fle lat (Fin 90)
                  \<and> fle (Fin (- 180)) lon \<and> fle lon (Fin 180)
               then Some (split (CHR '','') line ! 1, lat, lon, Fin al) else None)"
    by blast
  from p assms have c: "fle (Fin (- 90)) lat" "fle lat (Fin 90)"
      "fle (Fin (- 180)) lon" "fle lon (Fin 180)"
    and f: "f = (split (CHR '','') line ! 1, lat, lon, Fin al)"
    by (auto split: if_splits)
  from fle_between[OF c(1,2)] fle_between[OF c(3,4)] f al
  show "\<exists>lat lon al. f = (split (CHR '','') line ! 1, Fin lat, Fin lon, Fin al)
           \<and> - 90 \<le> lat \<and> lat \<le> 90 \<and> - 180 \<le> lon \<and> lon \<le> 180
           \<and> - 1000 \<le> al \<and> al \<le> 10000"
    by auto
qed

lemma convert_spec:
  assumes pf: "py_float coord = Inr (Fin v)" and v: "0 \<le> v" "v \<le> 18000"
  shows "convert coord direction = spec_decimal_degrees v direction"
proof -
  from convert_eq[OF pf v, of direction] obtain h m where
    h: "rnd (v / 100) = Fin h" and
    m: "fdiv (fsub (Fin v) (Fin (of_int (\<lfloor>h\<rfloor> * 100)))) (Fin 60) = Inr m" and
    c: "convert coord direction =
          Inr (if direction = ''S'' \<or> direction = ''W''
               then fmul (fadd (Fin (of_int \<lfloor>h\<rfloor>)) m) (Fin (- 1))
               else fadd (Fin (of_int \<lfloor>h\<rfloor>)) m)"
    by blast
  have d: "fdiv (Fin v) (Fin 100) = Inr (Fin h)" using h by simp
  have "spec_decimal_degrees v direction =
          Inr (if direction = ''S'' \<or> direction = ''W''
               then fneg (fadd (Fin (of_int \<lfloor>h\<rfloor>)) m)
               else fadd (Fin (of_int \<lfloor>h\<rfloor>)) m)"
    unfolding spec_decimal_degrees_def d then_do_Inr pyfloat.case Let_def m by simp
  with c show ?thesis by (simp add: fmul_minus_one)
qed

lemma valid_line_conversions:
  assumes valid: "is_valid_gngga_line line = Inr True"
  shows "\<exists>lat_raw lon_raw lat lon alt.
           py_float (split (CHR '','') line ! 2) = Inr (Fin lat_raw)
         \<and> py_float (split (CHR '','') line ! 4) = Inr (Fin lon_raw)
         \<and> spec_decimal_degrees lat_raw (split (CHR '','') line ! 3) = Inr lat
         \<and> spec_decimal_degrees lon_raw (split (CHR '','') line ! 5) = Inr lon
         \<and> convert (split (CHR '','') line ! 2) (split (CHR '','') line ! 3) = Inr lat
         \<and> convert (split (CHR '','') line ! 4) (split (CHR '','') line ! 5) = Inr lon
         \<and> py_float (split (CHR '','') line ! 9) = Inr alt
         \<and> (parse_gngga line = Inr None
              \<or> parse_gngga line = Inr (Some (split (CHR '','') line ! 1, lat, lon, alt)))"
proof -
  let ?p = "split (CHR '','') line"
  from valid have "plausible (?p ! 2) (?p ! 4) (?p ! 9) = Inr True"
    by (subst (asm) is_valid_eq) simp
  from plausible_True[OF this] obtain la lo where
    la: "py_float (?p ! 2) = Inr (Fin la)" "0 < la" "la \<le> 9000" and
    lo: "py_float (?p ! 4) = Inr (Fin lo)" "0 < lo" "lo \<le> 18000"
    by blast
  from parse_gngga_valid[OF valid] obtain lat lon al where
    c: "convert (?p ! 2) (?p ! 3) = Inr lat" "convert (?p ! 4) (?p ! 5) = Inr lon"
      "py_float (?p ! 9) = Inr (Fin al)" and
    p: "parse_gngga line =
          Inr (if endswith (?p ! 0) ''GGA''
                  \<and> fle (Fin (- 90)) lat \<and> fle lat (Fin 90)
                  \<and> fle (Fin (- 180)) lon \<and> fle lon (Fin 180)
               then Some (?p ! 1, lat, lon, Fin al) else None)"
    by blast
  have s1: "spec_decimal_degrees la (?p ! 3) = Inr lat"
    using convert_spec[OF la(1), of "?p ! 3"] la c by simp
  have s2: "spec_decimal_degrees lo (?p ! 5) = Inr lon"
    using convert_spec[OF lo(1), of "?p ! 5"] lo c by simp
  from p have "parse_gngga line = Inr None
      \<or> parse_gngga line = Inr (Some (?p ! 1, lat, lon, Fin al))"
    by (simp split: if_splits)
  with la(1) lo(1) s1 s2 c show ?thesis by blast
qed

section \<open>The claims about the validator and the parser\<close>

lemma example_line_valid: "is_valid_gngga_line example_line = Inr True"
  by code_simp

lemma example_line_parsed:
  "parse_gngga example_line =
     Inr (Some (''123456.00'', Fin (344772541707767 / 8796093022208),
                Fin (- (5436463995184953 / 70368744177664)), Fin 130))"
  by code_simp

lemma overshoot_line_valid: "is_valid_gngga_line overshoot_line = Inr True"
  by code_simp

lemma overshoot_line_rejected: "parse_gngga overshoot_line = Inr None"
  by code_simp

lemma zero_line_latitude:
  "2 < length (split (CHR '','') zero_line) \<and> py_float (split (CHR '','') zero_line ! 2) = Inr (Fin 0)"
  by code_simp

lemma garbled_line_latitude:
  "2 < length (split (CHR '','') garbled_line)
   \<and> py_float (split (CHR '','') garbled_line ! 2) = Inl ValueError"
  by code_simp

text \<open>
  C1. For every line that the validator accepts, \<open>parse_gngga\<close> raises nothing and returns
  either \<open>None\<close> or a fix whose latitude lies in [-90, 90], whose longitude lies in
  [-180, 180] and whose altitude lies in [-1000, 10000], all three finite.
\<close>

theorem parse_within_bounds:
  "is_valid_gngga_line line = Inr True \<Longrightarrow>
     parse_gngga line = Inr None \<or>
     (\<exists>utc lat lon alt.
        parse_gngga line = Inr (Some (utc, Fin lat, Fin lon, Fin alt))
        \<and> - 90 \<le> lat \<and> lat \<le> 90 \<and> - 180 \<le> lon \<and> lon \<le> 180
        \<and> - 1000 \<le> alt \<and> alt \<le> 10000)"
proof -
  assume "is_valid_gngga_line line = Inr True"
  from parse_gngga_cases[of line] obtain r where r: "parse_gngga line = Inr r" by blast
  show ?thesis
  proof (cases r)
    case None
    with r show ?thesis by simp
  next
    case (Some f)
    with r parse_gngga_Some(2)[of line f] show ?thesis by auto
  qed
qed

theorem parse_within_bounds_witness:
  "is_valid_gngga_line example_line = Inr True \<and>
   (parse_gngga example_line = Inr None \<or>
    (\<exists>utc lat lon alt.
       parse_gngga example_line = Inr (Some (utc, Fin lat, Fin lon, Fin alt))
       \<and> - 90 \<le> lat \<and> lat \<le> 90 \<and> - 180 \<le> lon \<and> lon \<le> 180
       \<and> - 1000 \<le> alt \<and> alt \<le> 10000))"
  using parse_within_bounds[OF example_line_valid] example_line_valid by blast

text \<open>
  C4. A line whose raw latitude magnitude (field 2) or raw longitude magnitude (field 4)
  converts to zero is rejected by the validator, whatever its other fields are.
\<close>

theorem zero_magnitude_rejected:
  "(2 < length (split (CHR '','') line) \<and> py_float (split (CHR '','') line ! 2) = Inr (Fin 0))
   \<or> (4 < length (split (CHR '','') line) \<and> py_float (split (CHR '','') line ! 4) = Inr (Fin 0))
   \<Longrightarrow> is_valid_gngga_line line = Inr False"
proof -
  let ?p = "split (CHR '','') line"
  assume z: "(2 < length ?p \<and> py_float (?p ! 2) = Inr (Fin 0))
             \<or> (4 < length ?p \<and> py_float (?p ! 4) = Inr (Fin 0))"
  have "plausible (?p ! 2) (?p ! 4) (?p ! 9) \<noteq> Inr True"
  proof
    assume "plausible (?p ! 2) (?p ! 4) (?p ! 9) = Inr True"
    from plausible_True[OF this] z show False by auto
  qed
  then show ?thesis by (subst is_valid_eq) simp
qed

theorem zero_magnitude_rejected_witness:
  "(2 < length (split (CHR '','') zero_line)
      \<and> py_float (split (CHR '','') zero_line ! 2) = Inr (Fin 0))
   \<and> is_valid_gngga_line zero_line = Inr False"
  using zero_magnitude_rejected[of zero_line] zero_line_latitude by blast

text \<open>
  C5. The validator is total: on every string it returns a boolean and raises nothing. When
  one of the three numeric fields (2, 4 and 9) does not convert to a float, it returns
  \<open>False\<close>.
\<close>

theorem validator_total:
  "(\<exists>b. is_valid_gngga_line line = Inr b) \<and>
   (\<forall>i \<in> {2, 4, 9}.
      i < length (split (CHR '','') line) \<longrightarrow> py_float (split (CHR '','') line ! i) = Inl e
      \<longrightarrow> is_valid_gngga_line line = Inr False)"
proof
  show "\<exists>b. is_valid_gngga_line line = Inr b" by (subst is_valid_eq) blast
next
  let ?p = "split (CHR '','') line"
  show "\<forall>i \<in> {2, 4, 9}. i < length ?p \<longrightarrow> py_float (?p ! i) = Inl e
          \<longrightarrow> is_valid_gngga_line line = Inr False"
  proof (intro ballI impI)
    fix i :: nat
    assume i: "i \<in> {2, 4, 9}" and e: "py_float (?p ! i) = Inl e"
    have "plausible (?p ! 2) (?p ! 4) (?p ! 9) \<noteq> Inr True"
    proof
      assume "plausible (?p ! 2) (?p ! 4) (?p ! 9) = Inr True"
      from plausible_True[OF this] i e show False by auto
    qed
    then show "is_valid_gngga_line line = Inr False" by (subst is_valid_eq) simp
  qed
qed

theorem validator_total_witness:
  "(2::nat) \<in> {2, 4, 9} \<and> 2 < length (split (CHR '','') garbled_line)
   \<and> py_float (split (CHR '','') garbled_line ! 2) = Inl ValueError
   \<and> is_valid_gngga_line garbled_line = Inr False"
  using validator_total[of garbled_line ValueError] garbled_line_latitude by blast

section \<open>The claims about the log reader\<close>

lemma clean_lines_foldl:
  "foldl (\<lambda>valid_lines raw.
            let line = strip raw
            in if keep_line line then valid_lines @ [line] else valid_lines) acc raw_lines
   = acc @ filter keep_line (map strip raw_lines)"
  by (induction raw_lines arbitrary: acc) (simp_all add: Let_def)

lemma clean_lines_eq: "clean_lines raw_lines = filter keep_line (map strip raw_lines)"
  by (simp add: clean_lines_def clean_lines_foldl)

lemma read_latest_cases:
  "read_latest_gnss_data fs filename =
     (case read_raw_lines fs filename encodings of
        Inl e \<Rightarrow> Inr []
      | Inr raw_lines \<Rightarrow> Inr (clean_lines raw_lines))"
  by (cases "read_raw_lines fs filename encodings")
     (simp_all add: read_latest_gnss_data_def split: exn.split)

lemma noisy_file_raw:
  "read_raw_lines (sample_fs noisy_file) ''test.ubx'' encodings = Inr noisy_file"
  by (simp add: encodings_def sample_fs_def)

lemma noisy_file_kept: "filter keep_line (map strip noisy_file) = [example_line]"
  by code_simp

lemma missing_fs_raw:
  "open_text missing_fs ''test.ubx'' ''utf-8'' = Inl FileNotFoundError
   \<and> read_raw_lines missing_fs ''test.ubx'' encodings = Inl FileNotFoundError"
  by (simp add: encodings_def missing_fs_def)

text \<open>
  C6. When the file can be read, the reader returns the stripped forms of exactly those
  decoded lines whose stripped form starts with \<open>$GNGGA\<close>, is longer than 50 characters
  and consists of code points below 128 that are printable or whitespace; the other lines
  are dropped and the order of the file is kept.
\<close>

theorem reader_keeps_candidates:
  "read_raw_lines fs filename encodings = Inr raw_lines \<Longrightarrow>
     read_latest_gnss_data fs filename = Inr (filter keep_line (map strip raw_lines))
     \<and> (\<forall>line. keep_line line \<longleftrightarrow>
           startswith line ''$GNGGA'' \<and> 50 < length line
           \<and> (\<forall>c \<in> set line. ord c < 128 \<and> (isprintable c \<or> isspace c)))"
  by (simp add: read_latest_cases clean_lines_eq keep_line_def list_all_iff)

theorem reader_keeps_candidates_witness:
  "read_raw_lines (sample_fs noisy_file) ''test.ubx'' encodings = Inr noisy_file
   \<and> read_latest_gnss_data (sample_fs noisy_file) ''test.ubx'' = Inr [example_line]"
  using reader_keeps_candidates[OF noisy_file_raw] noisy_file_raw noisy_file_kept
  by simp

text \<open>
  C9, as the code has it. The reader raises nothing: when the file does not exist
  (FileNotFoundError) and on any other failure to read it, it returns the empty list, the
  result it also gives for a readable file with no lines.
\<close>

theorem reader_never_fails:
  "(\<exists>lines. read_latest_gnss_data fs filename = Inr lines)
   \<and> (open_text fs filename ''utf-8'' = Inl FileNotFoundError
        \<longrightarrow> read_latest_gnss_data fs filename = Inr [])
   \<and> (read_raw_lines fs filename encodings = Inl e
        \<longrightarrow> read_latest_gnss_data fs filename = Inr [])
   \<and> (read_raw_lines fs filename encodings = Inr []
        \<longrightarrow> read_latest_gnss_data fs filename = Inr [])"
  by (auto simp: read_latest_cases encodings_def clean_lines_eq split: sum.split)

theorem reader_never_fails_witness:
  "open_text missing_fs ''test.ubx'' ''utf-8'' = Inl FileNotFoundError
   \<and> read_raw_lines missing_fs ''test.ubx'' encodings = Inl FileNotFoundError
   \<and> read_latest_gnss_data missing_fs ''test.ubx'' = Inr []"
  using reader_never_fails[of missing_fs "''test.ubx''" FileNotFoundError] missing_fs_raw
  by blast

theorem missing_file_counterexample:
  "open_text missing_fs ''test.ubx'' ''utf-8'' = Inl FileNotFoundError
   \<and> read_latest_gnss_data missing_fs ''test.ubx'' = Inr []
   \<and> read_latest_gnss_data (sample_fs []) ''test.ubx'' = Inr []"
  by (simp add: read_latest_cases encodings_def missing_fs_def sample_fs_def clean_lines_eq)

section \<open>The claims about the fix resolver\<close>

lemma fix_of_eq: "parse_gngga line = Inr (fix_of line)"
  using parse_gngga_cases[of line] by (auto simp: fix_of_def)

lemma scan_lines_step:
  "scan_lines (line # rest) =
     (case fix_of line of Some f \<Rightarrow> Inr (Some f) | None \<Rightarrow> scan_lines rest)"
proof (cases "fix_of line")
  case None
  then have p: "parse_gngga line = Inr None" using fix_of_eq[of line] by simp
  from is_valid_eq[of line] obtain b where b: "is_valid_gngga_line line = Inr b" by blast
  from None p b show ?thesis by simp
next
  case (Some f)
  then have p: "parse_gngga line = Inr (Some f)" using fix_of_eq[of line] by simp
  from parse_gngga_Some(1)[OF p] p Some show ?thesis by simp
qed

lemma scan_lines_eq:
  "scan_lines lines = Inr (case parsed_fixes lines of [] \<Rightarrow> None | f # fs \<Rightarrow> Some f)"
proof (induction lines)
  case Nil
  show ?case by (simp add: parsed_fixes_def map_filter_simps)
next
  case (Cons line rest)
  show ?case
    unfolding scan_lines_step using Cons
    by (cases "fix_of line") (simp_all add: parsed_fixes_def map_filter_simps)
qed

lemma parsed_fixes_append: "parsed_fixes (xs @ ys) = parsed_fixes xs @ parsed_fixes ys"
  by (simp add: parsed_fixes_def map_filter_def)

lemma parsed_fixes_none:
  "(\<forall>l \<in> set ls. parse_gngga l = Inr None) \<longleftrightarrow> parsed_fixes ls = []"
proof (induction ls)
  case Nil
  show ?case by (simp add: parsed_fixes_def map_filter_simps)
next
  case (Cons l ls)
  then show ?case
    using fix_of_eq[of l]
    by (cases "fix_of l") (auto simp: parsed_fixes_def map_filter_simps)
qed

lemma get_last_valid_position_eq:
  assumes "read_latest_gnss_data fs filename = Inr lines"
  shows "get_last_valid_position fs filename =
           Inr (case parsed_fixes (rev lines) of [] \<Rightarrow> None | f # fs \<Rightarrow> Some f)"
proof (cases "lines = []")
  case True
  with assms show ?thesis
    by (simp add: get_last_valid_position_def parsed_fixes_def map_filter_simps)
next
  case False
  with assms show ?thesis
    by (simp add: get_last_valid_position_def scan_lines_eq)
qed

lemma two_lines_read:
  "read_latest_gnss_data (sample_fs [example_line, overshoot_line]) ''test.ubx''
     = Inr [example_line, overshoot_line]"
  by code_simp

text \<open>
  C2, as the code has it. The backward scan does not stop at a line that the validator
  accepts and the parser rejects: \<open>get_last_valid_position\<close> returns the fix of the last
  candidate line that parses, whatever the lines after it are, and returns \<open>None\<close> exactly
  when no candidate line parses.
\<close>

theorem latest_valid_scans_on:
  "read_latest_gnss_data fs filename = Inr lines \<Longrightarrow>
     (lines = before @ [line] @ after \<longrightarrow> parse_gngga line = Inr (Some f)
        \<longrightarrow> (\<forall>l \<in> set after. parse_gngga l = Inr None)
        \<longrightarrow> get_last_valid_position fs filename = Inr (Some f))
     \<and> (get_last_valid_position fs filename = Inr None
          \<longleftrightarrow> (\<forall>l \<in> set lines. parse_gngga l = Inr None))
     \<and> (\<exists>r. get_last_valid_position fs filename = Inr r)"
proof -
  assume r: "read_latest_gnss_data fs filename = Inr lines"
  note g = get_last_valid_position_eq[OF r]
  have hit: "get_last_valid_position fs filename = Inr (Some f)"
    if l: "lines = before @ [line] @ after" and p: "parse_gngga line = Inr (Some f)"
      and a: "\<forall>l \<in> set after. parse_gngga l = Inr None"
  proof -
    from a have "\<forall>l \<in> set (rev after). parse_gngga l = Inr None" by simp
    then have n: "parsed_fixes (rev after) = []" by (simp only: parsed_fixes_none)
    from p fix_of_eq[of line] have "fix_of line = Some f" by simp
    then have "parsed_fixes [line] = [f]" by (simp add: parsed_fixes_def map_filter_simps)
    then have "parsed_fixes (rev after @ [line] @ rev before) = f # parsed_fixes (rev before)"
      using n by (simp only: parsed_fixes_append) simp
    with l have "parsed_fixes (rev lines) = f # parsed_fixes (rev before)"
      by simp
    with g show ?thesis by simp
  qed
  have none: "get_last_valid_position fs filename = Inr None
                \<longleftrightarrow> (\<forall>l \<in> set lines. parse_gngga l = Inr None)"
  proof -
    have "(\<forall>l \<in> set lines. parse_gngga l = Inr None) \<longleftrightarrow> parsed_fixes (rev lines) = []"
      using parsed_fixes_none[of "rev lines"] by simp
    with g show ?thesis by (cases "parsed_fixes (rev lines)") simp_all
  qed
  from hit none g show ?thesis by blast
qed

theorem latest_valid_scans_on_witness:
  "read_latest_gnss_data (sample_fs [example_line, overshoot_line]) ''test.ubx''
     = Inr [example_line, overshoot_line]
   \<and> [example_line, overshoot_line] = [] @ [example_line] @ [overshoot_line]
   \<and> parse_gngga example_line =
       Inr (Some (''123456.00'', Fin (344772541707767 / 8796093022208),
                  Fin (- (5436463995184953 / 70368744177664)), Fin 130))
   \<and> parse_gngga overshoot_line = Inr None
   \<and> get_last_valid_position (sample_fs [example_line, overshoot_line]) ''test.ubx'' =
       Inr (Some (''123456.00'', Fin (344772541707767 / 8796093022208),
                  Fin (- (5436463995184953 / 70368744177664)), Fin 130))"
proof -
  note r = two_lines_read
  have a: "\<forall>l \<in> set [overshoot_line]. parse_gngga l = Inr None"
    by (simp add: overshoot_line_rejected)
  from latest_valid_scans_on[OF r, of "[]" example_line "[overshoot_line]"]
    example_line_parsed a r
  show ?thesis by simp
qed

theorem latest_valid_counterexample:
  "is_valid_gngga_line overshoot_line = Inr True
   \<and> parse_gngga overshoot_line = Inr None
   \<and> read_latest_gnss_data (sample_fs [example_line, overshoot_line]) ''test.ubx''
       = Inr [example_line, overshoot_line]
   \<and> get_last_valid_position (sample_fs [example_line, overshoot_line]) ''test.ubx''
       \<noteq> Inr None"
proof -
  note r = two_lines_read
  have "parsed_fixes (rev [example_line, overshoot_line]) \<noteq> []"
    using parsed_fixes_none[of "rev [example_line, overshoot_line]"] example_line_parsed
    by auto
  then have "get_last_valid_position (sample_fs [example_line, overshoot_line]) ''test.ubx''
          \<noteq> Inr None"
    unfolding get_last_valid_position_eq[OF r]
    by (cases "parsed_fixes (rev [example_line, overshoot_line])") simp_all
  with r overshoot_line_valid overshoot_line_rejected show ?thesis by simp
qed

lemma parse_loop_eq:
  "parse_loop lines positions skipped_count =
     Inr (positions @ parsed_fixes lines,
          skipped_count + length (filter (\<lambda>l. parse_gngga l = Inr None) lines))"
proof (induction lines arbitrary: positions skipped_count)
  case Nil
  show ?case by (simp add: parsed_fixes_def map_filter_simps)
next
  case (Cons line rest)
  show ?case
  proof (cases "fix_of line")
    case None
    then have p: "parse_gngga line = Inr None" using fix_of_eq[of line] by simp
    with None Cons show ?thesis by (simp add: parsed_fixes_def map_filter_simps)
  next
    case (Some f)
    then have p: "parse_gngga line = Inr (Some f)" using fix_of_eq[of line] by simp
    with Some Cons show ?thesis by (simp add: parsed_fixes_def map_filter_simps)
  qed
qed

lemma parsed_fixes_length:
  "length (parsed_fixes lines) + length (filter (\<lambda>l. parse_gngga l = Inr None) lines)
     = length lines"
proof (induction lines)
  case Nil
  show ?case by (simp add: parsed_fixes_def map_filter_simps)
next
  case (Cons line rest)
  then show ?case
    using fix_of_eq[of line]
    by (cases "fix_of line") (simp_all add: parsed_fixes_def map_filter_simps)
qed

lemma parsed_fixes_set:
  "f \<in> set (parsed_fixes lines) \<longleftrightarrow> (\<exists>l \<in> set lines. parse_gngga l = Inr (Some f))"
proof (induction lines)
  case Nil
  show ?case by (simp add: parsed_fixes_def map_filter_simps)
next
  case (Cons line rest)
  then show ?case
    using fix_of_eq[of line]
    by (cases "fix_of line") (auto simp: parsed_fixes_def map_filter_simps)
qed

text \<open>
  C7. The batch loop parses every candidate line, raises on none and stops at none: its
  list of positions holds the fixes of the lines that parse, in file order, and the skipped
  count is the number of candidate lines minus the number of those fixes.
\<close>

theorem batch_keeps_all_successes:
  "\<exists>lines positions skipped_count.
     read_latest_gnss_data fs filename = Inr lines
     \<and> load_positions fs filename = Inr (positions, skipped_count)
     \<and> positions = parsed_fixes lines
     \<and> (\<forall>f. f \<in> set positions \<longleftrightarrow> (\<exists>l \<in> set lines. parse_gngga l = Inr (Some f)))
     \<and> skipped_count = length lines - length positions
     \<and> length positions + skipped_count = length lines"
proof -
  obtain lines where r: "read_latest_gnss_data fs filename = Inr lines"
    by (cases "read_raw_lines fs filename encodings") (simp_all add: read_latest_cases)
  have l: "load_positions fs filename =
      Inr (parsed_fixes lines, length (filter (\<lambda>l. parse_gngga l = Inr None) lines))"
    by (simp add: load_positions_def r parse_loop_eq)
  from parsed_fixes_length[of lines] have
    "length (filter (\<lambda>l. parse_gngga l = Inr None) lines) = length lines - length (parsed_fixes lines)"
    "length (parsed_fixes lines) + length (filter (\<lambda>l. parse_gngga l = Inr None) lines) = length lines"
    by simp_all
  with r l parsed_fixes_set[of _ lines] show ?thesis
    by auto
qed

theorem batch_keeps_all_successes_witness:
  "load_positions (sample_fs [example_line, overshoot_line]) ''test.ubx'' =
     Inr ([(''123456.00'', Fin (344772541707767 / 8796093022208),
            Fin (- (5436463995184953 / 70368744177664)), Fin 130)], 1)"
proof -
  from batch_keeps_all_successes[of "sample_fs [example_line, overshoot_line]" "''test.ubx''"]
  obtain lines positions skipped_count where
    r: "read_latest_gnss_data (sample_fs [example_line, overshoot_line]) ''test.ubx'' = Inr lines"
    and l: "load_positions (sample_fs [example_line, overshoot_line]) ''test.ubx''
              = Inr (positions, skipped_count)"
    and p: "positions = parsed_fixes lines"
    and s: "skipped_count = length lines - length positions"
    by blast
  from r two_lines_read have lines: "lines = [example_line, overshoot_line]" by simp
  have "fix_of example_line = Some (''123456.00'', Fin (344772541707767 / 8796093022208),
            Fin (- (5436463995184953 / 70368744177664)), Fin 130)"
    and "fix_of overshoot_line = None"
    by (simp_all add: fix_of_def example_line_parsed overshoot_line_rejected)
  with p lines have "positions = [(''123456.00'', Fin (344772541707767 / 8796093022208),
            Fin (- (5436463995184953 / 70368744177664)), Fin 130)]"
    by (simp add: parsed_fixes_def map_filter_simps)
  with l s lines show ?thesis by simp
qed

section \<open>The claims about the live mode\<close>

lemma last_1000_short: "length xs \<le> 1000 \<Longrightarrow> last_1000 xs = xs"
  by (simp add: last_1000_def)

lemma length_last_1000: "length (last_1000 xs) = min (length xs) 1000"
  by (simp add: last_1000_def)

lemma set_last_1000: "set (last_1000 xs) \<subseteq> set xs"
  by (simp add: last_1000_def set_drop_subset)

lemma last_1000_idem: "last_1000 (last_1000 xs @ ys) = last_1000 (xs @ ys)"
proof (cases "length xs \<le> 1000")
  case True
  then show ?thesis by (simp add: last_1000_short)
next
  case False
  then have "length xs + length ys - 1000 = length ys + (length xs - 1000)" by simp
  with False show ?thesis by (simp add: last_1000_def)
qed

lemma live_append_x:
  "live_path_x (live_append st (x, y, z)) = last_1000 (live_path_x st @ [x])"
  by (simp add: live_append_def Let_def last_1000_def)

lemma live_append_yz:
  assumes "length (live_path_y st) = length (live_path_x st)"
    and "length (live_path_z st) = length (live_path_x st)"
  shows "live_path_y (live_append st (x, y, z)) = last_1000 (live_path_y st @ [y])"
    and "live_path_z (live_append st (x, y, z)) = last_1000 (live_path_z st @ [z])"
  using assms by (simp_all add: live_append_def Let_def last_1000_def)

lemma live_append_size [simp]:
  "last_file_size (live_append st p) = last_file_size st"
  by (cases p) (simp add: live_append_def Let_def)

lemma window_ok_append: "window_ok st \<Longrightarrow> window_ok (live_append st (x, y, z))"
  by (simp add: window_ok_def live_append_x live_append_yz length_last_1000)

lemma live_iteration_cases:
  "live_iteration np_cos fs filename st = st
   \<or> (\<exists>n. live_iteration np_cos fs filename st = st\<lparr>last_file_size := n\<rparr>)
   \<or> (\<exists>n utc lat lon alt x y.
         get_last_valid_position fs filename = Inr (Some (utc, lat, lon, alt))
         \<and> geo_to_xy np_cos OBSERVER_LAT OBSERVER_LON lat lon = Inr (x, y)
         \<and> \<not> unreasonable x y (fsub alt OBSERVER_ALT)
         \<and> live_iteration np_cos fs filename st =
             live_append (st\<lparr>last_file_size := n\<rparr>) (x, y, fsub alt OBSERVER_ALT))"
  by (auto simp: live_iteration_def or_keep_def Let_def split: sum.split option.split prod.split)

lemma window_ok_size: "window_ok st \<Longrightarrow> window_ok (st\<lparr>last_file_size := n\<rparr>)"
  by (simp add: window_ok_def)

lemma window_ok_iteration:
  "window_ok st \<Longrightarrow> window_ok (live_iteration np_cos fs filename st)"
  using live_iteration_cases[of np_cos fs filename st]
  by (auto simp: window_ok_append window_ok_size)

lemma foldl_invariant:
  "P s \<Longrightarrow> (\<And>s x. P s \<Longrightarrow> P (f s x)) \<Longrightarrow> P (foldl f s xs)"
  by (induction xs arbitrary: s) simp_all

lemma window_ok_playback: "window_ok (live_gnss_playback np_cos snapshots filename)"
  unfolding live_gnss_playback_def
  by (rule foldl_invariant) (simp_all add: window_ok_iteration, simp add: window_ok_def live_init_def)

lemma appends_x:
  "length (live_path_x st) \<le> 1000 \<Longrightarrow>
     live_path_x (foldl live_append st points) = last_1000 (live_path_x st @ map fst points)"
proof (induction points arbitrary: st)
  case Nil
  then show ?case by (simp add: last_1000_short)
next
  case (Cons p points)
  obtain x y z where p: "p = (x, y, z)" by (cases p) auto
  have "length (live_path_x (live_append st p)) \<le> 1000"
    by (simp add: p live_append_x length_last_1000)
  from Cons.IH[OF this] show ?case
    by (simp add: p live_append_x last_1000_idem)
qed

lemma last_1000_zip:
  "length ys = length xs \<Longrightarrow> last_1000 (zip xs ys) = zip (last_1000 xs) (last_1000 ys)"
  by (simp add: last_1000_def drop_zip)

lemma window_paths:
  assumes "window_ok st"
  shows "map fst (window st) = live_path_x st"
    and "map (fst \<circ> snd) (window st) = live_path_y st"
    and "map (snd \<circ> snd) (window st) = live_path_z st"
    and "length (window st) = length (live_path_x st)"
  using assms by (simp_all add: window_def window_ok_def map_fst_zip map_snd_zip
      flip: map_map)

lemma window_size [simp]: "window (st\<lparr>last_file_size := n\<rparr>) = window st"
  by (simp add: window_def)

lemma window_append:
  assumes "window_ok st"
  shows "window (live_append st (x, y, z)) = last_1000 (window st @ [(x, y, z)])"
proof -
  from assms have l: "length (live_path_y st) = length (live_path_x st)"
    "length (live_path_z st) = length (live_path_x st)"
    by (simp_all add: window_ok_def)
  have e: "window st @ [(x, y, z)] =
          zip (live_path_x st @ [x]) (zip (live_path_y st @ [y]) (live_path_z st @ [z]))"
    using l by (simp add: window_def)
  have z1: "last_1000 (zip (live_path_y st @ [y]) (live_path_z st @ [z])) =
          zip (last_1000 (live_path_y st @ [y])) (last_1000 (live_path_z st @ [z]))"
    by (rule last_1000_zip) (simp add: l)
  have z2: "last_1000 (zip (live_path_x st @ [x])
                (zip (live_path_y st @ [y]) (live_path_z st @ [z]))) =
          zip (last_1000 (live_path_x st @ [x]))
              (last_1000 (zip (live_path_y st @ [y]) (live_path_z st @ [z])))"
    by (rule last_1000_zip) (simp add: l)
  show ?thesis
    unfolding e z2 z1 by (simp add: window_def live_append_x live_append_yz[OF l])
qed

lemma window_full:
  assumes "window_ok st" and "length (window st) = 1000"
  shows "window (live_append st p) = tl (window st) @ [p]"
proof -
  obtain x y z where p: "p = (x, y, z)" by (cases p) auto
  from assms(2) show ?thesis
    unfolding p window_append[OF assms(1)]
    by (cases "window st") (simp_all add: last_1000_def)
qed

lemma window_ok_append_any: "window_ok st \<Longrightarrow> window_ok (live_append st p)"
  by (cases p) (simp add: window_ok_append)

lemma window_appends:
  "window_ok st \<Longrightarrow> window (foldl live_append st points) = last_1000 (window st @ points)"
proof (induction points arbitrary: st)
  case Nil
  then show ?case by (simp add: last_1000_short window_paths(4) window_ok_def)
next
  case (Cons p points)
  obtain x y z where p: "p = (x, y, z)" by (cases p) auto
  from Cons.IH[OF window_ok_append_any[OF Cons.prems], of p] show ?case
    by (simp add: p window_append[OF Cons.prems] last_1000_idem)
qed

lemma window_iteration:
  assumes "window_ok st"
  shows "window (live_iteration np_cos fs filename st) =
           (case new_point np_cos fs filename st of
              None \<Rightarrow> window st
            | Some p \<Rightarrow> last_1000 (window st @ [p]))"
proof -
  have ok: "window_ok (st\<lparr>last_file_size := n\<rparr>)" for n
    by (rule window_ok_size[OF assms])
  show ?thesis
    using window_append[OF ok]
    by (auto simp: live_iteration_def new_point_def or_keep_def Let_def
        split: sum.split option.split prod.split)
qed

lemma window_passes:
  "window_ok st \<Longrightarrow>
     window (foldl (\<lambda>st fs. live_iteration np_cos fs filename st) st snapshots)
       = last_1000 (window st @ points_stored np_cos filename st snapshots)"
proof (induction snapshots arbitrary: st)
  case Nil
  then show ?case by (simp add: last_1000_short window_paths(4) window_ok_def)
next
  case (Cons fs rest)
  from Cons.IH[OF window_ok_iteration[OF Cons.prems], of np_cos fs filename]
  show ?case
    by (cases "new_point np_cos fs filename st")
       (simp_all add: window_iteration[OF Cons.prems] last_1000_idem)
qed

lemma window_init: "window live_init = []" "window_ok live_init"
  by (simp_all add: window_def window_ok_def live_init_def)

lemma near_playback:
  "live_gnss_playback sample_cos [sample_fs [example_line]] ''test.ubx'' =
     \<lparr>live_path_x = [Fin (- (2865471440516993 / 2417851639229258349412352))],
      live_path_y = [Fin 0], live_path_z = [Fin 0], last_file_size = 1\<rparr>"
  by code_simp

text \<open>
  C8. The live window never holds more than 1000 points. After any number of passes of the
  live loop the three coordinate lists have one length, at most 1000, and the points they
  hold are the last 1000 (all of them when there are fewer) of the points that the passes
  handed to the \<^verbatim>\<open>append\<close> calls. Each pass leaves the window as it is or appends one
  point; appending a point (east, north and vertical together) keeps the last 1000 entries
  of the extended window, so a window of 1000 points loses its oldest point, first in first
  out.
\<close>

theorem live_window_bounded:
  "length (live_path_x (live_gnss_playback np_cos snapshots filename)) \<le> 1000
   \<and> length (live_path_y (live_gnss_playback np_cos snapshots filename)) \<le> 1000
   \<and> length (live_path_z (live_gnss_playback np_cos snapshots filename)) \<le> 1000
   \<and> live_path_x (live_append st (x, y, z)) = last_1000 (live_path_x st @ [x])
   \<and> length (live_path_x (live_append st (x, y, z))) \<le> 1000
   \<and> (length (live_path_x st) = 1000
        \<longrightarrow> live_path_x (live_append st (x, y, z)) = tl (live_path_x st) @ [x])
   \<and> (length (live_path_x st) \<le> 1000
        \<longrightarrow> live_path_x (foldl live_append st points)
             = last_1000 (live_path_x st @ map fst points))
   \<and> length (live_path_y (live_gnss_playback np_cos snapshots filename))
       = length (live_path_x (live_gnss_playback np_cos snapshots filename))
   \<and> length (live_path_z (live_gnss_playback np_cos snapshots filename))
       = length (live_path_x (live_gnss_playback np_cos snapshots filename))
   \<and> map fst (window (live_gnss_playback np_cos snapshots filename))
       = live_path_x (live_gnss_playback np_cos snapshots filename)
   \<and> map (fst \<circ> snd) (window (live_gnss_playback np_cos snapshots filename))
       = live_path_y (live_gnss_playback np_cos snapshots filename)
   \<and> map (snd \<circ> snd) (window (live_gnss_playback np_cos snapshots filename))
       = live_path_z (live_gnss_playback np_cos snapshots filename)
   \<and> window (live_gnss_playback np_cos snapshots filename)
       = last_1000 (points_stored np_cos filename live_init snapshots)
   \<and> (window_ok st \<longrightarrow>
        window (live_iteration np_cos fs filename st)
          = (case new_point np_cos fs filename st of
               None \<Rightarrow> window st
             | Some p \<Rightarrow> last_1000 (window st @ [p]))
        \<and> window_ok (live_iteration np_cos fs filename st)
        \<and> window_ok (live_append st (x, y, z))
        \<and> window (live_append st (x, y, z)) = last_1000 (window st @ [(x, y, z)])
        \<and> live_path_y (live_append st (x, y, z)) = last_1000 (live_path_y st @ [y])
        \<and> live_path_z (live_append st (x, y, z)) = last_1000 (live_path_z st @ [z])
        \<and> length (window (live_append st (x, y, z))) \<le> 1000
        \<and> (length (window st) = 1000 \<longrightarrow>
             window (live_append st (x, y, z)) = tl (window st) @ [(x, y, z)]
             \<and> live_path_x (live_append st (x, y, z)) = tl (live_path_x st) @ [x]
             \<and> live_path_y (live_append st (x, y, z)) = tl (live_path_y st) @ [y]
             \<and> live_path_z (live_append st (x, y, z)) = tl (live_path_z st) @ [z])
        \<and> window (foldl live_append st points) = last_1000 (window st @ points))"
proof -
  let ?P = "live_gnss_playback np_cos snapshots filename"
  note ok = window_ok_playback[of np_cos snapshots filename]
  note w = ok[unfolded window_ok_def]
  have full: "live_path_x (live_append st (x, y, z)) = tl (live_path_x st) @ [x]"
    if "length (live_path_x st) = 1000"
    using that by (cases "live_path_x st") (simp_all add: live_append_x last_1000_def)
  have first: "length (live_path_x ?P) \<le> 1000 \<and> length (live_path_y ?P) \<le> 1000
      \<and> length (live_path_z ?P) \<le> 1000
      \<and> live_path_x (live_append st (x, y, z)) = last_1000 (live_path_x st @ [x])
      \<and> length (live_path_x (live_append st (x, y, z))) \<le> 1000
      \<and> (length (live_path_x st) = 1000
           \<longrightarrow> live_path_x (live_append st (x, y, z)) = tl (live_path_x st) @ [x])
      \<and> (length (live_path_x st) \<le> 1000
           \<longrightarrow> live_path_x (foldl live_append st points)
                = last_1000 (live_path_x st @ map fst points))"
    using w full appends_x[of st points] by (simp add: live_append_x length_last_1000)
  have hist: "window ?P = last_1000 (points_stored np_cos filename live_init snapshots)"
    unfolding live_gnss_playback_def
    using window_passes[OF window_init(2), of np_cos filename snapshots]
    by (simp add: window_init(1))
  have second: "length (live_path_y ?P) = length (live_path_x ?P)
      \<and> length (live_path_z ?P) = length (live_path_x ?P)
      \<and> map fst (window ?P) = live_path_x ?P
      \<and> map (fst \<circ> snd) (window ?P) = live_path_y ?P
      \<and> map (snd \<circ> snd) (window ?P) = live_path_z ?P
      \<and> window ?P = last_1000 (points_stored np_cos filename live_init snapshots)"
    using w window_paths(1-3)[OF ok] hist by simp
  have third: "window (live_iteration np_cos fs filename st)
          = (case new_point np_cos fs filename st of
               None \<Rightarrow> window st
             | Some p \<Rightarrow> last_1000 (window st @ [p]))
        \<and> window_ok (live_iteration np_cos fs filename st)
        \<and> window_ok (live_append st (x, y, z))
        \<and> window (live_append st (x, y, z)) = last_1000 (window st @ [(x, y, z)])
        \<and> live_path_y (live_append st (x, y, z)) = last_1000 (live_path_y st @ [y])
        \<and> live_path_z (live_append st (x, y, z)) = last_1000 (live_path_z st @ [z])
        \<and> length (window (live_append st (x, y, z))) \<le> 1000
        \<and> (length (window st) = 1000 \<longrightarrow>
             window (live_append st (x, y, z)) = tl (window st) @ [(x, y, z)]
             \<and> live_path_x (live_append st (x, y, z)) = tl (live_path_x st) @ [x]
             \<and> live_path_y (live_append st (x, y, z)) = tl (live_path_y st) @ [y]
             \<and> live_path_z (live_append st (x, y, z)) = tl (live_path_z st) @ [z])
        \<and> window (foldl live_append st points) = last_1000 (window st @ points)"
    if st: "window_ok st"
  proof -
    from st have l: "length (live_path_y st) = length (live_path_x st)"
      "length (live_path_z st) = length (live_path_x st)"
      by (simp_all add: window_ok_def)
    note a = window_ok_append[OF st, of x y z]
    have len: "length (window (live_append st (x, y, z))) \<le> 1000"
      using a by (simp add: window_paths(4)[OF a] window_ok_def)
    have tls: "window (live_append st (x, y, z)) = tl (window st) @ [(x, y, z)]
        \<and> live_path_x (live_append st (x, y, z)) = tl (live_path_x st) @ [x]
        \<and> live_path_y (live_append st (x, y, z)) = tl (live_path_y st) @ [y]
        \<and> live_path_z (live_append st (x, y, z)) = tl (live_path_z st) @ [z]"
      if f: "length (window st) = 1000"
    proof -
      from f window_paths(4)[OF st] l have n: "length (live_path_x st) = 1000"
        "length (live_path_y st) = 1000" "length (live_path_z st) = 1000"
        by simp_all
      have "live_path_y (live_append st (x, y, z)) = tl (live_path_y st) @ [y]"
        using n(2) by (cases "live_path_y st") (simp_all add: live_append_yz[OF l] last_1000_def)
      moreover have "live_path_z (live_append st (x, y, z)) = tl (live_path_z st) @ [z]"
        using n(3) by (cases "live_path_z st") (simp_all add: live_append_yz[OF l] last_1000_def)
      ultimately show ?thesis using full[OF n(1)] window_full[OF st f, of "(x, y, z)"] by simp
    qed
    from window_iteration[OF st, of np_cos fs filename] window_ok_iteration[OF st, of np_cos fs filename]
      a window_append[OF st, of x y z] live_append_yz[OF l, of x y z] len tls
      window_appends[OF st, of points]
    show ?thesis by simp
  qed
  from first second third show ?thesis by blast
qed

theorem live_window_bounded_witness:
  "window_ok full_window
   \<and> length (window full_window) = 1000
   \<and> window (live_append full_window (Fin 4, Fin 5, Fin 6))
       = tl (window full_window) @ [(Fin 4, Fin 5, Fin 6)]
   \<and> live_path_x (live_append full_window (Fin 4, Fin 5, Fin 6))
       = tl (live_path_x full_window) @ [Fin 4]
   \<and> live_path_y (live_append full_window (Fin 4, Fin 5, Fin 6))
       = tl (live_path_y full_window) @ [Fin 5]
   \<and> live_path_z (live_append full_window (Fin 4, Fin 5, Fin 6))
       = tl (live_path_z full_window) @ [Fin 6]
   \<and> length (window (live_append full_window (Fin 4, Fin 5, Fin 6))) \<le> 1000
   \<and> last_1000 (points_stored sample_cos ''test.ubx'' live_init [sample_fs [example_line]])
       = [(Fin (- (2865471440516993 / 2417851639229258349412352)), Fin 0, Fin 0)]"
proof -
  have ok: "window_ok full_window" by (simp add: window_ok_def full_window_def)
  have h: "length (window full_window) = 1000" by (simp add: window_def full_window_def)
  have n: "window (live_gnss_playback sample_cos [sample_fs [example_line]] ''test.ubx'')
             = [(Fin (- (2865471440516993 / 2417851639229258349412352)), Fin 0, Fin 0)]"
    by (simp add: near_playback window_def)
  note T = live_window_bounded[of sample_cos "[sample_fs [example_line]]" "''test.ubx''"
      full_window "Fin 4" "Fin 5" "Fin 6" "[]" "sample_fs [example_line]"]
  from T have hist:
    "window (live_gnss_playback sample_cos [sample_fs [example_line]] ''test.ubx'')
       = last_1000 (points_stored sample_cos ''test.ubx'' live_init [sample_fs [example_line]])"
    by blast
  from T ok have len: "length (window (live_append full_window (Fin 4, Fin 5, Fin 6))) \<le> 1000"
    by blast
  from T ok h have tls:
    "window (live_append full_window (Fin 4, Fin 5, Fin 6))
       = tl (window full_window) @ [(Fin 4, Fin 5, Fin 6)]
     \<and> live_path_x (live_append full_window (Fin 4, Fin 5, Fin 6))
         = tl (live_path_x full_window) @ [Fin 4]
     \<and> live_path_y (live_append full_window (Fin 4, Fin 5, Fin 6))
         = tl (live_path_y full_window) @ [Fin 5]
     \<and> live_path_z (live_append full_window (Fin 4, Fin 5, Fin 6))
         = tl (live_path_z full_window) @ [Fin 6]"
    by blast
  have stored:
    "last_1000 (points_stored sample_cos ''test.ubx'' live_init [sample_fs [example_line]])
       = [(Fin (- (2865471440516993 / 2417851639229258349412352)), Fin 0, Fin 0)]"
    by (rule trans[OF hist[symmetric] n])
  from ok h tls len stored show ?thesis by blast
qed

lemma rnd_not_NaN [simp]: "rnd x \<noteq> NaN"
  by (simp add: rnd_def Let_def)

lemma bounded_by_rnd:
  "\<bar>x\<bar> \<le> B \<Longrightarrow> 1 \<le> B \<Longrightarrow> B \<le> 100000000000000000 \<Longrightarrow> bounded_by (2 * B) (rnd x)"
  using rnd_bound[of x B] by (simp add: bounded_by_def)

lemma fmul_bounded:
  assumes "bounded_by A a" and "bounded_by B b" and "1 \<le> A * B" and "A * B \<le> 100000000000000000"
  shows "bounded_by (2 * (A * B)) (fmul a b)"
proof -
  from assms obtain x y where x: "a = Fin x" "\<bar>x\<bar> \<le> A" and y: "b = Fin y" "\<bar>y\<bar> \<le> B"
    by (auto simp: bounded_by_def)
  have "\<bar>x * y\<bar> \<le> A * B"
    unfolding abs_mult using x(2) y(2) by (intro mult_mono) simp_all
  from bounded_by_rnd[OF this assms(3,4)] x y show ?thesis by simp
qed

lemma fsub_bounded:
  assumes "bounded_by A a" and "bounded_by B b" and "1 \<le> A + B" and "A + B \<le> 100000000000000000"
  shows "bounded_by (2 * (A + B)) (fsub a b)"
proof -
  from assms obtain x y where x: "a = Fin x" "\<bar>x\<bar> \<le> A" and y: "b = Fin y" "\<bar>y\<bar> \<le> B"
    by (auto simp: bounded_by_def)
  have "\<bar>x + - y\<bar> \<le> A + B" using x(2) y(2) by linarith
  from bounded_by_rnd[OF this assms(3,4)] x y show ?thesis by (simp add: fsub_def)
qed

lemma fdiv_bounded:
  assumes "bounded_by A a" and "1 \<le> c" and "1 \<le> A" and "A \<le> 100000000000000000"
  shows "\<exists>v. fdiv a (Fin c) = Inr v \<and> bounded_by (2 * A) v"
proof -
  from assms obtain x where x: "a = Fin x" "\<bar>x\<bar> \<le> A"
    by (auto simp: bounded_by_def)
  have "\<bar>x\<bar> * 1 \<le> \<bar>x\<bar> * c"
    by (rule mult_left_mono) (use assms(2) in simp_all)
  then have "\<bar>x / c\<bar> \<le> \<bar>x\<bar>"
    using assms(2) by (simp add: divide_le_eq)
  with x(2) have "\<bar>x / c\<bar> \<le> A" by linarith
  from bounded_by_rnd[OF this assms(3,4)] x assms(2) show ?thesis by simp
qed

lemma observer_bounded:
  "bounded_by 80 OBSERVER_LAT" "bounded_by 156 OBSERVER_LON" "OBSERVER_ALT = Fin 130"
proof -
  have "bounded_by (2 * 40) (rnd (391961 / 10000))" by (rule bounded_by_rnd) simp_all
  then show "bounded_by 80 OBSERVER_LAT" by (simp add: OBSERVER_LAT_def)
  have "bounded_by (2 * 78) (rnd (- (772568 / 10000)))" by (rule bounded_by_rnd) simp_all
  then show "bounded_by 156 OBSERVER_LON" by (simp add: OBSERVER_LON_def)
  have "rnd (of_int 130) = Fin (of_int 130)" by (rule rnd_of_int_exact) simp
  then show "OBSERVER_ALT = Fin 130" by (simp add: OBSERVER_ALT_def)
qed

lemma np_pi_bounded: "bounded_by 4 np_pi"
proof -
  have "\<bar>884279719003555 / 281474976710656 :: rat\<bar> \<le> 4" by simp
  then show ?thesis unfolding np_pi_def bounded_by_def by blast
qed

lemma earth_radius: "int_to_float 6371000 = Inr (Fin 6371000)"
proof -
  have "rnd (of_int 6371000) = Fin (of_int 6371000)" by (rule rnd_of_int_exact) simp
  then show ?thesis by (simp add: int_to_float_def)
qed

lemma geo_to_xy_finite:
  assumes cos: "\<forall>q. \<exists>c. np_cos (Fin q) = Fin c"
    and lat: "bounded_by 90 lat" and lon: "bounded_by 180 lon"
  shows "\<exists>x y. geo_to_xy np_cos OBSERVER_LAT OBSERVER_LON lat lon = Inr (x, y)
           \<and> x \<noteq> NaN \<and> y \<noteq> NaN"
proof -
  have R: "bounded_by 6371000 (Fin 6371000)" by (simp add: bounded_by_def)
  \<comment> \<open>the east offset before the cosine\<close>
  have "bounded_by (2 * (180 + 156)) (fsub lon OBSERVER_LON)"
    by (rule fsub_bounded[OF lon observer_bounded(2)]) simp_all
  then have "bounded_by (2 * (672 * 4)) (fmul (fsub lon OBSERVER_LON) np_pi)"
    by (intro fmul_bounded[OF _ np_pi_bounded]) simp_all
  then have "bounded_by 5376 (fmul (fsub lon OBSERVER_LON) np_pi)" by simp
  from fdiv_bounded[OF this, of 180] obtain dlon where
    dlon: "fdiv (fmul (fsub lon OBSERVER_LON) np_pi) (Fin 180) = Inr dlon"
    "bounded_by 10752 dlon" by auto
  have "bounded_by (2 * (10752 * 6371000)) (fmul dlon (Fin 6371000))"
    by (rule fmul_bounded[OF dlon(2) R]) simp_all
  then obtain east where east: "fmul dlon (Fin 6371000) = Fin east"
    by (auto simp: bounded_by_def)
  \<comment> \<open>the argument of the cosine\<close>
  have "bounded_by (2 * (80 * 4)) (fmul OBSERVER_LAT np_pi)"
    by (rule fmul_bounded[OF observer_bounded(1) np_pi_bounded]) simp_all
  then have "bounded_by 640 (fmul OBSERVER_LAT np_pi)" by simp
  from fdiv_bounded[OF this, of 180] obtain lat0_rad where
    rad: "fdiv (fmul OBSERVER_LAT np_pi) (Fin 180) = Inr lat0_rad" "bounded_by 1280 lat0_rad"
    by auto
  from rad(2) cos obtain c where c: "np_cos lat0_rad = Fin c"
    by (auto simp: bounded_by_def)
  \<comment> \<open>the north offset\<close>
  have "bounded_by (2 * (90 + 80)) (fsub lat OBSERVER_LAT)"
    by (rule fsub_bounded[OF lat observer_bounded(1)]) simp_all
  then have "bounded_by (2 * (340 * 4)) (fmul (fsub lat OBSERVER_LAT) np_pi)"
    by (intro fmul_bounded[OF _ np_pi_bounded]) simp_all
  then have "bounded_by 2720 (fmul (fsub lat OBSERVER_LAT) np_pi)" by simp
  from fdiv_bounded[OF this, of 180] obtain dlat where
    dlat: "fdiv (fmul (fsub lat OBSERVER_LAT) np_pi) (Fin 180) = Inr dlat"
    "bounded_by 5440 dlat" by auto
  from dlat(2) obtain d where d: "dlat = Fin d" by (auto simp: bounded_by_def)
  have "geo_to_xy np_cos OBSERVER_LAT OBSERVER_LON lat lon =
          Inr (fmul (Fin east) (Fin c), fmul (Fin d) (Fin 6371000))"
    unfolding geo_to_xy_def earth_radius then_do_Inr dlon(1) rad(1) dlat(1) Let_def east c d
    by simp
  then show ?thesis by simp
qed

lemma not_unreasonable:
  assumes "\<not> unreasonable x y z" and "x \<noteq> NaN" and "y \<noteq> NaN" and "z \<noteq> NaN"
  shows "bounded_by 1000 x" and "bounded_by 1000 y" and "bounded_by 100 z"
proof -
  have b: "bounded_by b v" if "\<not> fgt (fabs v) (Fin b)" and "v \<noteq> NaN" for b v
    using that by (cases v) (auto simp: fgt_def bounded_by_def)
  from assms show "bounded_by 1000 x" "bounded_by 1000 y" "bounded_by 100 z"
    by (auto simp: unreasonable_def intro: b)
qed

lemma latest_fix_bounded:
  assumes "get_last_valid_position fs filename = Inr (Some (utc, lat, lon, alt))"
  shows "bounded_by 90 lat" and "bounded_by 180 lon" and "\<exists>a. alt = Fin a"
proof -
  obtain lines where r: "read_latest_gnss_data fs filename = Inr lines"
    by (cases "read_raw_lines fs filename encodings") (simp_all add: read_latest_cases)
  from assms get_last_valid_position_eq[OF r]
  have "(utc, lat, lon, alt) \<in> set (parsed_fixes (rev lines))"
    by (cases "parsed_fixes (rev lines)") simp_all
  then obtain l where "parse_gngga l = Inr (Some (utc, lat, lon, alt))"
    by (auto simp: parsed_fixes_set)
  from parse_gngga_Some(2)[OF this]
  show "bounded_by 90 lat" and "bounded_by 180 lon" and "\<exists>a. alt = Fin a"
    by (auto simp: bounded_by_def abs_le_iff)
qed

lemma live_append_sets:
  "set (live_path_x (live_append st (x, y, z))) \<subseteq> insert x (set (live_path_x st))"
  "set (live_path_y (live_append st (x, y, z))) \<subseteq> insert y (set (live_path_y st))"
  "set (live_path_z (live_append st (x, y, z))) \<subseteq> insert z (set (live_path_z st))"
  using set_last_1000[of "live_path_x st @ [x]"] set_last_1000[of "live_path_y st @ [y]"]
    set_last_1000[of "live_path_z st @ [z]"]
  by (auto simp: live_append_def Let_def)

lemma reasonable_append:
  assumes "reasonable_window st" and "bounded_by 1000 x" and "bounded_by 1000 y"
    and "bounded_by 100 z"
  shows "reasonable_window (live_append st (x, y, z))"
  using assms live_append_sets[of st x y z] unfolding reasonable_window_def by blast

lemma reasonable_size:
  "reasonable_window st \<Longrightarrow> reasonable_window (st\<lparr>last_file_size := n\<rparr>)"
  by (simp add: reasonable_window_def)

lemma reasonable_iteration:
  assumes cos: "\<forall>q. \<exists>c. np_cos (Fin q) = Fin c" and st: "reasonable_window st"
  shows "reasonable_window (live_iteration np_cos fs filename st)"
proof -
  from live_iteration_cases[of np_cos fs filename st]
  consider "live_iteration np_cos fs filename st = st"
    | n where "live_iteration np_cos fs filename st = st\<lparr>last_file_size := n\<rparr>"
    | n utc lat lon alt x y where
        "get_last_valid_position fs filename = Inr (Some (utc, lat, lon, alt))"
        "geo_to_xy np_cos OBSERVER_LAT OBSERVER_LON lat lon = Inr (x, y)"
        "\<not> unreasonable x y (fsub alt OBSERVER_ALT)"
        "live_iteration np_cos fs filename st =
           live_append (st\<lparr>last_file_size := n\<rparr>) (x, y, fsub alt OBSERVER_ALT)"
    by blast
  then show ?thesis
  proof cases
    case 1
    with st show ?thesis by simp
  next
    case 2
    with st show ?thesis by (simp add: reasonable_size)
  next
    case 3
    note b = latest_fix_bounded[OF 3(1)]
    from geo_to_xy_finite[OF cos b(1,2)] 3(2) have xy: "x \<noteq> NaN" "y \<noteq> NaN" by auto
    from b(3) have z: "fsub alt OBSERVER_ALT \<noteq> NaN"
      by (auto simp: observer_bounded(3) fsub_def)
    from not_unreasonable[OF 3(3) xy z] reasonable_size[OF st, of n] 3(4)
    show ?thesis by (simp add: reasonable_append)
  qed
qed

lemma reasonable_playback:
  assumes "\<forall>q. \<exists>c. np_cos (Fin q) = Fin c"
  shows "reasonable_window (live_gnss_playback np_cos snapshots filename)"
  unfolding live_gnss_playback_def
  by (rule foldl_invariant)
     (simp_all add: reasonable_iteration[OF assms], simp add: reasonable_window_def live_init_def)

lemma live_iteration_skip:
  assumes "get_last_valid_position fs filename = Inr (Some (utc, lat, lon, alt))"
    and "geo_to_xy np_cos OBSERVER_LAT OBSERVER_LON lat lon = Inr (x, y)"
    and "unreasonable x y (fsub alt OBSERVER_ALT)"
  shows "live_path_x (live_iteration np_cos fs filename st) = live_path_x st
       \<and> live_path_y (live_iteration np_cos fs filename st) = live_path_y st
       \<and> live_path_z (live_iteration np_cos fs filename st) = live_path_z st"
  using assms by (simp add: live_iteration_def or_keep_def Let_def split: sum.split)

lemma sample_cos_finite: "\<forall>q. \<exists>c. sample_cos (Fin q) = Fin c"
  by (intro allI exI[of _ "3 / 4"]) (simp add: sample_cos_def)

lemma far_fix:
  "get_last_valid_position (sample_fs [far_line]) ''test.ubx'' =
     Inr (Some (''123458.00'', Fin (344772541707767 / 8796093022208),
                Fin (- (5506832739362617 / 70368744177664)), Fin 130))"
  by code_simp

lemma far_xy:
  "geo_to_xy sample_cos OBSERVER_LAT OBSERVER_LON (Fin (344772541707767 / 8796093022208))
     (Fin (- (5506832739362617 / 70368744177664)))
   = Inr (Fin (- (1432735720258517 / 17179869184)), Fin 0)"
  by code_simp

text \<open>
  C10. In live mode a latest fix whose projected offset has \<open>|east| > 1000\<close>,
  \<open>|north| > 1000\<close> or \<open>|vertical| > 100\<close> leaves the window as it is, and every point that
  the window ever holds is finite with \<open>|east| \<le> 1000\<close>, \<open>|north| \<le> 1000\<close> and
  \<open>|vertical| \<le> 100\<close>. \<^verbatim>\<open>np.cos\<close> is only required to return a finite number on a finite
  argument.
\<close>

theorem live_points_reasonable:
  assumes "\<forall>q. \<exists>c. np_cos (Fin q) = Fin c"
  shows "(\<forall>v \<in> set (live_path_x (live_gnss_playback np_cos snapshots filename)).
            \<exists>r. v = Fin r \<and> \<bar>r\<bar> \<le> 1000)
       \<and> (\<forall>v \<in> set (live_path_y (live_gnss_playback np_cos snapshots filename)).
            \<exists>r. v = Fin r \<and> \<bar>r\<bar> \<le> 1000)
       \<and> (\<forall>v \<in> set (live_path_z (live_gnss_playback np_cos snapshots filename)).
            \<exists>r. v = Fin r \<and> \<bar>r\<bar> \<le> 100)
       \<and> (get_last_valid_position fs filename = Inr (Some (utc, lat, lon, alt))
            \<longrightarrow> geo_to_xy np_cos OBSERVER_LAT OBSERVER_LON lat lon = Inr (x, y)
            \<longrightarrow> fgt (fabs x) (Fin 1000) \<or> fgt (fabs y) (Fin 1000)
                 \<or> fgt (fabs (fsub alt OBSERVER_ALT)) (Fin 100)
            \<longrightarrow> live_path_x (live_iteration np_cos fs filename st) = live_path_x st
                \<and> live_path_y (live_iteration np_cos fs filename st) = live_path_y st
                \<and> live_path_z (live_iteration np_cos fs filename st) = live_path_z st)"
  using reasonable_playback[OF assms, of snapshots filename]
    live_iteration_skip[of fs filename utc lat lon alt np_cos x y st]
  by (simp add: reasonable_window_def bounded_by_def unreasonable_def)

theorem live_points_reasonable_witness:
  "(\<forall>q. \<exists>c. sample_cos (Fin q) = Fin c)
   \<and> live_path_x (live_gnss_playback sample_cos [sample_fs [example_line]] ''test.ubx'')
       = [Fin (- (2865471440516993 / 2417851639229258349412352))]
   \<and> \<bar>- (2865471440516993 / 2417851639229258349412352) :: rat\<bar> \<le> 1000
   \<and> fgt (fabs (Fin (- (1432735720258517 / 17179869184)))) (Fin 1000)
   \<and> live_path_x (live_iteration sample_cos (sample_fs [far_line]) ''test.ubx'' full_window)
       = live_path_x full_window"
proof -
  have big: "fgt (fabs (Fin (- (1432735720258517 / 17179869184)))) (Fin 1000)"
    by (simp add: fgt_def)
  from live_points_reasonable[OF sample_cos_finite,
      of "[sample_fs [example_line]]" "''test.ubx''" "sample_fs [far_line]" "''123458.00''"
        "Fin (344772541707767 / 8796093022208)" "Fin (- (5506832739362617 / 70368744177664))"
        "Fin 130" "Fin (- (1432735720258517 / 17179869184))" "Fin 0" full_window]
    far_fix far_xy big sample_cos_finite near_playback
  show ?thesis by simp
qed

section \<open>The claim about the conversion of coordinates\<close>

lemma example_line_fields:
  "py_float (split (CHR '','') example_line ! 2) = Inr (Fin (8602064404277625 / 2199023255552))
   \<and> split (CHR '','') example_line ! 3 = ''N''
   \<and> py_float (split (CHR '','') example_line ! 4) = Inr (Fin (8483180809035973 / 1099511627776))
   \<and> split (CHR '','') example_line ! 5 = ''W''"
  by code_simp

text \<open>
  C3. For every line that the validator accepts, the two raw magnitudes are finite floats
  and \<open>convert\<close> computes the formula of the specification on them: degrees is the floor of
  raw / 100, minutes is raw - degrees * 100, the result is degrees + minutes / 60, negated
  exactly for the hemispheres \<open>S\<close> and \<open>W\<close>; a fix that \<open>parse_gngga\<close> returns holds these two
  values and the float of the altitude field. The example sentence parses to a latitude
  within one billionth of 39.1961, a longitude within one billionth of -77.2568 and the altitude 130.
\<close>

theorem conversion_formula:
  "(is_valid_gngga_line line = Inr True \<longrightarrow>
      (\<exists>lat_raw lon_raw lat lon alt.
          py_float (split (CHR '','') line ! 2) = Inr (Fin lat_raw)
        \<and> py_float (split (CHR '','') line ! 4) = Inr (Fin lon_raw)
        \<and> py_float (split (CHR '','') line ! 9) = Inr alt
        \<and> convert (split (CHR '','') line ! 2) (split (CHR '','') line ! 3)
            = spec_decimal_degrees lat_raw (split (CHR '','') line ! 3)
        \<and> convert (split (CHR '','') line ! 4) (split (CHR '','') line ! 5)
            = spec_decimal_degrees lon_raw (split (CHR '','') line ! 5)
        \<and> spec_decimal_degrees lat_raw (split (CHR '','') line ! 3) = Inr lat
        \<and> spec_decimal_degrees lon_raw (split (CHR '','') line ! 5) = Inr lon
        \<and> (parse_gngga line = Inr None
             \<or> parse_gngga line = Inr (Some (split (CHR '','') line ! 1, lat, lon, alt)))))
   \<and> (\<exists>lat lon.
          parse_gngga example_line = Inr (Some (''123456.00'', Fin lat, Fin lon, Fin 130))
        \<and> \<bar>lat - 391961 / 10000\<bar> < 1 / 10 ^ 9
        \<and> \<bar>lon - (- 772568 / 10000)\<bar> < 1 / 10 ^ 9)
   \<and> example_line = ''$GNGGA,123456.00,3911.766,N,07715.408,W,1,08,0.9,130.0,M,46.9,M,,*47''"
proof (intro conjI impI)
  assume "is_valid_gngga_line line = Inr True"
  from valid_line_conversions[OF this]
  show "\<exists>lat_raw lon_raw lat lon alt.
          py_float (split (CHR '','') line ! 2) = Inr (Fin lat_raw)
        \<and> py_float (split (CHR '','') line ! 4) = Inr (Fin lon_raw)
        \<and> py_float (split (CHR '','') line ! 9) = Inr alt
        \<and> convert (split (CHR '','') line ! 2) (split (CHR '','') line ! 3)
            = spec_decimal_degrees lat_raw (split (CHR '','') line ! 3)
        \<and> convert (split (CHR '','') line ! 4) (split (CHR '','') line ! 5)
            = spec_decimal_degrees lon_raw (split (CHR '','') line ! 5)
        \<and> spec_decimal_degrees lat_raw (split (CHR '','') line ! 3) = Inr lat
        \<and> spec_decimal_degrees lon_raw (split (CHR '','') line ! 5) = Inr lon
        \<and> (parse_gngga line = Inr None
             \<or> parse_gngga line = Inr (Some (split (CHR '','') line ! 1, lat, lon, alt)))"
    by metis
next
  have "\<bar>344772541707767 / 8796093022208 - 391961 / 10000 :: rat\<bar> < 1 / 10 ^ 9"
    and "\<bar>- (5436463995184953 / 70368744177664) - (- 772568 / 10000) :: rat\<bar> < 1 / 10 ^ 9"
    by simp_all
  with example_line_parsed
  show "\<exists>lat lon.
          parse_gngga example_line = Inr (Some (''123456.00'', Fin lat, Fin lon, Fin 130))
        \<and> \<bar>lat - 391961 / 10000\<bar> < 1 / 10 ^ 9
        \<and> \<bar>lon - (- 772568 / 10000)\<bar> < 1 / 10 ^ 9"
    by blast
next
  show "example_line = ''$GNGGA,123456.00,3911.766,N,07715.408,W,1,08,0.9,130.0,M,46.9,M,,*47''"
    by (simp add: example_line_def)
qed

theorem conversion_formula_witness:
  "is_valid_gngga_line example_line = Inr True
   \<and> spec_decimal_degrees (8602064404277625 / 2199023255552) ''N''
       = Inr (Fin (344772541707767 / 8796093022208))
   \<and> spec_decimal_degrees (8483180809035973 / 1099511627776) ''W''
       = Inr (Fin (- (5436463995184953 / 70368744177664)))"
proof -
  from conversion_formula[of example_line] example_line_valid
  obtain lat_raw lon_raw lat lon alt where
    f: "py_float (split (CHR '','') example_line ! 2) = Inr (Fin lat_raw)"
       "py_float (split (CHR '','') example_line ! 4) = Inr (Fin lon_raw)"
    and s: "spec_decimal_degrees lat_raw (split (CHR '','') example_line ! 3) = Inr lat"
       "spec_decimal_degrees lon_raw (split (CHR '','') example_line ! 5) = Inr lon"
    and p: "parse_gngga example_line = Inr None
       \<or> parse_gngga example_line = Inr (Some (split (CHR '','') example_line ! 1, lat, lon, alt))"
    by blast
  from f example_line_fields have raw: "lat_raw = 8602064404277625 / 2199023255552"
    "lon_raw = 8483180809035973 / 1099511627776"
    by simp_all
  from p example_line_parsed have "lat = Fin (344772541707767 / 8796093022208)"
    "lon = Fin (- (5436463995184953 / 70368744177664))"
    by simp_all
  with s raw example_line_fields example_line_valid show ?thesis by simp
qed

end
